theory Spec2Isabelle
  imports Main "HOL-Library.Word"
begin

unbundle bit_operations_syntax

section \<open>Formatting (snprintf)\<close>

text \<open>
  The conversions of \<open>snprintf\<close> the module uses: \<open>%d\<close>, \<open>%u\<close>, \<open>%p\<close> (glibc prints a
  null pointer as \<open>(nil)\<close> and any other as \<open>0x\<close> and lower-case hexadecimal digits) and
  \<open>%08x\<close>.  \<open>nl\<close> is the line feed.
\<close>

abbreviation (input) nl :: string where
  "nl \<equiv> [CHR 0x0A]"

definition digitChar :: "nat \<Rightarrow> char" where
  "digitChar d = ''0123456789abcdef'' ! d"

fun showNat :: "nat \<Rightarrow> string" where
  "showNat n =
     (if n < 10 then [digitChar n] else showNat (n div 10) @ [digitChar (n mod 10)])"

declare showNat.simps [simp del]

definition showInt :: "int \<Rightarrow> string" where
  "showInt i = (if i < 0 then ''-'' @ showNat (nat (- i)) else showNat (nat i))"

fun showHex :: "nat \<Rightarrow> string" where
  "showHex n =
     (if n < 16 then [digitChar n] else showHex (n div 16) @ [digitChar (n mod 16)])"

declare showHex.simps [simp del]

definition showPtr :: "nat \<Rightarrow> string" where
  "showPtr a = (if a = 0 then ''(nil)'' else ''0x'' @ showHex a)"

definition showHex08 :: "32 word \<Rightarrow> string" where
  "showHex08 w = replicate (8 - length (showHex (unat w))) (CHR ''0'') @ showHex (unat w)"

text \<open>
  \<open>snprintf(sigString, sizeof(sigString), ...)\<close> followed by \<open>strlen(sigString)\<close>: the
  buffer has 256 bytes, so at most 255 characters of the text are kept.
\<close>

definition snprintf256 :: "string \<Rightarrow> string" where
  "snprintf256 text = take 255 text"


section \<open>Signal events of the Legato framework (framework/c/src/signals.c)\<close>

text \<open>
  The module turns POSIX signals into event-loop callbacks.  Every thread keeps one
  monitor object (its list of handler objects, a signalfd descriptor and the reference of
  its fd monitor) in thread-local storage under the key \<open>SigMonKey\<close>.  The model below
  follows one thread: its thread-local pointer, its kernel signal mask, the signalfd
  descriptors it has open and the fd monitors registered with the event loop.
\<close>

subsection \<open>Constants of signal.h, errno.h and poll.h\<close>

text \<open>The numbers are the ones of Linux on x86 and ARM; \<open>SIGIOT\<close> is \<open>SIGABRT\<close> there.\<close>

definition SIGILL :: int where "SIGILL = 4"
definition SIGTRAP :: int where "SIGTRAP = 5"
definition SIGABRT :: int where "SIGABRT = 6"
definition SIGIOT :: int where "SIGIOT = 6"
definition SIGBUS :: int where "SIGBUS = 7"
definition SIGFPE :: int where "SIGFPE = 8"
definition SIGKILL :: int where "SIGKILL = 9"
definition SIGSEGV :: int where "SIGSEGV = 11"
definition SIGTERM :: int where "SIGTERM = 15"
definition SIGSTOP :: int where "SIGSTOP = 19"
definition SIGSYS :: int where "SIGSYS = 31"

definition EINTR :: int where "EINTR = 4"
definition EAGAIN :: int where "EAGAIN = 11"

definition POLLIN :: "16 word" where "POLLIN = 1"

subsection \<open>Data\<close>

text \<open>
  A callback (\<open>le_sig_EventHandlerFunc_t\<close>) is a function pointer; the model names a
  callback by a number and writes the null pointer as \<open>None\<close>.
\<close>

type_synonym handlerFunc = nat

record HandlerObj =
  sigNum :: int
  handler :: "handlerFunc option"

record MonitorObj =
  monitorRef :: "nat option"
  fd :: int
  handlerObjList :: "HandlerObj list"

text \<open>
  The value of \<open>pthread_getspecific(SigMonKey)\<close> together with the state of the pool
  block it points to.  The monitor object is referenced from the thread-local slot only, so
  the slot either is null, or points to a live object with the given contents, or still
  points to a block that has been given back to the pool.
\<close>

datatype monitorPtr = Null | Valid MonitorObj | Released

record fdMonitor =
  monFd :: int
  monEvents :: "16 word"

record sigState =
  SigMonKey :: monitorPtr
  sigMask :: "int set"
  signalFds :: "int \<rightharpoonup> int set"
  fdMonitors :: "nat \<rightharpoonup> fdMonitor"
  handlerObjsAllocated :: int
  logMsgs :: "string list"

text \<open>
  How the process ends: \<open>LE_FATAL\<close> with its message, a failed \<open>LE_ASSERT\<close> with the
  asserted expression, an access to a released pool block (undefined behaviour in C), or
  \<open>exit\<close> with its status.  Such an outcome carries the state the thread was in when the
  process ended.
\<close>

datatype fatal = LE_FATAL string | LE_ASSERT string | UseAfterFree | Exit int

type_synonym 'a result = "(fatal \<times> sigState) + 'a"

text \<open>
  What the C library, the kernel and the rest of the framework answer during one call
  of \<open>le_sig_SetEventHandler\<close>: the name \<open>strsignal\<close> gives a signal, which numbers
  \<open>sigaddset\<close> accepts, whether \<open>pthread_setspecific\<close>, \<open>signalfd\<close> and
  \<open>le_utf8_Copy\<close> succeed, the descriptor a new signalfd gets and the reference a new fd
  monitor gets.
\<close>

record sysEnv =
  strsignal :: "int \<Rightarrow> string"
  sigValid :: "int \<Rightarrow> bool"
  setspecificOk :: bool
  signalfdOk :: bool
  newFd :: nat
  utf8CopyOk :: bool
  newMonitorRef :: nat

subsection \<open>FindHandlerObj\<close>

text \<open>
  The handler object found is named by its position in the list: the first object whose
  \<open>sigNum\<close> matches, \<open>None\<close> for the null pointer.
\<close>

fun FindHandlerObj :: "int \<Rightarrow> HandlerObj list \<Rightarrow> nat option" where
  "FindHandlerObj signo [] = None"
| "FindHandlerObj signo (h # hs) =
     (if sigNum h = signo then Some 0 else map_option Suc (FindHandlerObj signo hs))"

subsection \<open>le\_sig\_SetEventHandler\<close>

definition reservedSig :: "int \<Rightarrow> bool" where
  "reservedSig signo \<longleftrightarrow>
     signo = SIGKILL \<or> signo = SIGSTOP \<or> signo = SIGFPE \<or> signo = SIGILL \<or>
     signo = SIGSEGV \<or> signo = SIGBUS \<or> signo = SIGABRT \<or> signo = SIGIOT \<or>
     signo = SIGTRAP \<or> signo = SIGSYS"

definition notAllowedMsg :: "sysEnv \<Rightarrow> int \<Rightarrow> string" where
  "notAllowedMsg env signo =
     ''Signal event handler for '' @ strsignal env signo @ '' is not allowed.''"

text \<open>
  Modelled from the spec: the doubly linked list of the framework (\<open>le_dls\<close>) is not
  among the sources; the spec takes it as "an ordered sequence owned exclusively by the
  context, insertion order preserved, removal by key".  \<open>le_dls_Queue\<close> adds a link at
  the end, \<open>le_dls_Remove\<close> takes the link at a position out.
\<close>

definition le_dls_Queue :: "'a list \<Rightarrow> 'a \<Rightarrow> 'a list" where
  "le_dls_Queue l x = l @ [x]"

definition le_dls_Remove :: "'a list \<Rightarrow> nat \<Rightarrow> 'a list" where
  "le_dls_Remove l i = take i l @ drop (Suc i) l"

text \<open>
  Modelled from the spec: the memory pools of the framework (\<open>le_mem\<close>) are not among
  the sources; the spec takes them as "allocate/release a typed object".  The model
  counts the handler objects taken from \<open>HandlerObjPool\<close> and not given back.
\<close>

definition le_mem_ForceAlloc :: "sigState \<Rightarrow> sigState" where
  "le_mem_ForceAlloc s = s\<lparr>handlerObjsAllocated := handlerObjsAllocated s + 1\<rparr>"

definition le_mem_Release :: "sigState \<Rightarrow> sigState" where
  "le_mem_Release s = s\<lparr>handlerObjsAllocated := handlerObjsAllocated s - 1\<rparr>"

text \<open>
  Lines 684 to 720: find, create, update or remove the handler object.  \<open>None\<close> is the
  early return of line 692.  A new handler object is taken from the pool and queued; a
  handler object that is removed from the list is not given back to the pool here.
\<close>

definition setHandlerObj ::
  "int \<Rightarrow> handlerFunc option \<Rightarrow> MonitorObj \<Rightarrow> sigState \<Rightarrow> (MonitorObj \<times> sigState) option" where
  "setHandlerObj signo sigEventHandler m s =
     (case FindHandlerObj signo (handlerObjList m) of
        None \<Rightarrow>
          (case sigEventHandler of
             None \<Rightarrow> None
           | Some f \<Rightarrow>
               Some (m\<lparr>handlerObjList :=
                         le_dls_Queue (handlerObjList m) \<lparr>sigNum = signo, handler = Some f\<rparr>\<rparr>,
                     le_mem_ForceAlloc s))
      | Some i \<Rightarrow>
          (case sigEventHandler of
             None \<Rightarrow> Some (m\<lparr>handlerObjList := le_dls_Remove (handlerObjList m) i\<rparr>, s)
           | Some f \<Rightarrow>
               Some (m\<lparr>handlerObjList :=
                         (handlerObjList m)[i := (handlerObjList m ! i)\<lparr>handler := Some f\<rparr>]\<rparr>,
                     s)))"

text \<open>
  Lines 722 to 734: the signal set is rebuilt from the list, one \<open>sigaddset\<close> per
  handler object; \<open>None\<close> when \<open>sigaddset\<close> refuses a number.
\<close>

fun buildSigSet :: "(int \<Rightarrow> bool) \<Rightarrow> HandlerObj list \<Rightarrow> int set \<Rightarrow> int set option" where
  "buildSigSet valid [] sigSet = Some sigSet"
| "buildSigSet valid (h # hs) sigSet =
     (if valid (sigNum h) then buildSigSet valid hs (insert (sigNum h) sigSet) else None)"

text \<open>
  \<open>signalfd(fd, &sigSet, SFD_NONBLOCK)\<close>: with \<open>fd = -1\<close> a new descriptor is made
  for the set, otherwise the set of the signalfd \<open>fd\<close> is replaced.  The answer is the
  descriptor, or \<open>-1\<close>.  The kernel leaves \<open>SIGKILL\<close> and \<open>SIGSTOP\<close> out of the set
  it keeps, without an error: they cannot be received through a signalfd.
\<close>

definition signalfd :: "sysEnv \<Rightarrow> int \<Rightarrow> int set \<Rightarrow> sigState \<Rightarrow> int \<times> sigState" where
  "signalfd env d sigSet s =
     (if \<not> signalfdOk env then (- 1, s)
      else if d = - 1 then
        (if int (newFd env) \<in> dom (signalFds s) then (- 1, s)
         else (int (newFd env),
               s\<lparr>signalFds := (signalFds s)(int (newFd env) \<mapsto> sigSet - {SIGKILL, SIGSTOP})\<rparr>))
      else
        (case signalFds s d of
           None \<Rightarrow> (- 1, s)
         | Some old \<Rightarrow> (d, s\<lparr>signalFds := (signalFds s)(d \<mapsto> sigSet - {SIGKILL, SIGSTOP})\<rparr>)))"

text \<open>
  Modelled from the spec: \<open>le_fdMonitor_Create\<close> is not among the sources; the spec
  takes the event loop as "register fd + callback + interest mask".  The callback is always
  \<open>OurSigHandler\<close>.
\<close>

definition le_fdMonitor_Create :: "nat \<Rightarrow> int \<Rightarrow> 16 word \<Rightarrow> sigState \<Rightarrow> sigState" where
  "le_fdMonitor_Create r d events s =
     s\<lparr>fdMonitors := (fdMonitors s)(r \<mapsto> \<lparr>monFd = d, monEvents = events\<rparr>)\<rparr>"

text \<open>Lines 722 to 760, on the monitor object \<open>m\<close> as the list update left it.\<close>

definition updateSignalFd :: "sysEnv \<Rightarrow> MonitorObj \<Rightarrow> sigState \<Rightarrow> sigState result" where
  "updateSignalFd env m s =
     (case buildSigSet (sigValid env) (handlerObjList m) {} of
        None \<Rightarrow>
          Inl (LE_ASSERT ''sigaddset(&sigSet, handlerObjPtr->sigNum) == 0'',
               s\<lparr>SigMonKey := Valid m\<rparr>)
      | Some sigSet \<Rightarrow>
          (case signalfd env (fd m) sigSet s of
             (r, s1) \<Rightarrow>
               if r = - 1 then
                 Inl (LE_FATAL ''Could not set signal event handler: %m'',
                      s1\<lparr>SigMonKey := Valid (m\<lparr>fd := r\<rparr>)\<rparr>)
               else
                 (case monitorRef m of
                    Some k \<Rightarrow> Inr (s1\<lparr>SigMonKey := Valid (m\<lparr>fd := r\<rparr>)\<rparr>)
                  | None \<Rightarrow>
                      if \<not> utf8CopyOk env then
                        Inl (LE_ASSERT ''le_utf8_Copy(...) == LE_OK'',
                             s1\<lparr>SigMonKey := Valid (m\<lparr>fd := r\<rparr>)\<rparr>)
                      else
                        Inr ((le_fdMonitor_Create (newMonitorRef env) r POLLIN s1)
                               \<lparr>SigMonKey :=
                                  Valid (m\<lparr>fd := r, monitorRef := Some (newMonitorRef env)\<rparr>)\<rparr>))))"

definition setHandlerIn ::
  "sysEnv \<Rightarrow> int \<Rightarrow> handlerFunc option \<Rightarrow> MonitorObj \<Rightarrow> sigState \<Rightarrow> sigState result" where
  "setHandlerIn env signo sigEventHandler m s =
     (case setHandlerObj signo sigEventHandler m s of
        None \<Rightarrow> Inr s
      | Some (m1, s1) \<Rightarrow> updateSignalFd env m1 s1)"

text \<open>The monitor object as lines 674 to 677 initialise it.\<close>

definition newMonitorObj :: MonitorObj where
  "newMonitorObj = \<lparr>monitorRef = None, fd = - 1, handlerObjList = []\<rparr>"

definition le_sig_SetEventHandler ::
  "sysEnv \<Rightarrow> int \<Rightarrow> handlerFunc option \<Rightarrow> sigState \<Rightarrow> sigState result" where
  "le_sig_SetEventHandler env signo sigEventHandler s =
     (if reservedSig signo then Inl (LE_FATAL (notAllowedMsg env signo), s)
      else
        (case SigMonKey s of
           Null \<Rightarrow>
             (case sigEventHandler of
                None \<Rightarrow> Inr s
              | Some f \<Rightarrow>
                  if \<not> setspecificOk env then
                    Inl (LE_ASSERT ''pthread_setspecific(SigMonKey, monitorObjPtr) == 0'', s)
                  else
                    setHandlerIn env signo sigEventHandler newMonitorObj
                      (s\<lparr>SigMonKey := Valid newMonitorObj\<rparr>))
         | Valid m \<Rightarrow> setHandlerIn env signo sigEventHandler m s
         | Released \<Rightarrow> Inl (UseAfterFree, s)))"

subsection \<open>le\_sig\_Block\<close>

text \<open>
  What the kernel and the C library answer during one call of \<open>le_sig_Block\<close>: the
  thread id and the process id, the name \<open>strsignal\<close> gives the signal, whether
  \<open>sigaddset\<close> and \<open>pthread_sigmask\<close> succeed, and the signals the C library keeps
  for its own use and takes out of every set given to \<open>pthread_sigmask\<close> (glibc: 32 and
  33, for cancellation and \<open>setxid\<close>).
\<close>

record blockEnv =
  gettid :: int
  getpid :: int
  signalName :: string
  sigaddsetOk :: bool
  sigmaskOk :: bool
  libcReserved :: "int set"

text \<open>
  \<open>pthread_sigmask(SIG_BLOCK, &sigSet, NULL)\<close> when it succeeds: the signals of the set
  join the mask of the thread, except those the C library keeps for itself and
  \<open>SIGKILL\<close> and \<open>SIGSTOP\<close>, which the kernel never blocks; asking for them is not an
  error, they are left out silently.
\<close>

definition pthread_sigmask_BLOCK :: "blockEnv \<Rightarrow> int set \<Rightarrow> int set \<Rightarrow> int set" where
  "pthread_sigmask_BLOCK env sigSet oldMask =
     oldMask \<union> (sigSet - (libcReserved env \<union> {SIGKILL, SIGSTOP}))"

definition blockWarning :: "blockEnv \<Rightarrow> int \<Rightarrow> string" where
  "blockWarning env signo =
     ''Blocking signal '' @ showInt signo @ '' ('' @ signalName env @
     '').  Blocking signals not in the main thread may result in unexpected behaviour.''"

definition le_sig_Block :: "blockEnv \<Rightarrow> int \<Rightarrow> sigState \<Rightarrow> sigState result" where
  "le_sig_Block env signo s =
     (if gettid env = - 1 then Inl (LE_FATAL ''Could not get tid of calling thread.  %m.'', s)
      else
        (let s1 = (if gettid env \<noteq> getpid env
                   then s\<lparr>logMsgs := logMsgs s @ [blockWarning env signo]\<rparr>
                   else s)
         in if \<not> sigaddsetOk env then Inl (LE_ASSERT ''sigaddset(&sigSet, sigNum) == 0'', s1)
            else if \<not> sigmaskOk env then
              Inl (LE_ASSERT ''pthread_sigmask(SIG_BLOCK, &sigSet, NULL) == 0'', s1)
            else Inr (s1\<lparr>sigMask := pthread_sigmask_BLOCK env {signo} (sigMask s1)\<rparr>)))"

text \<open>
  Lines 572 to 579: \<open>le_sig_InstallDefaultTermHandler\<close> blocks \<open>SIGTERM\<close> in the calling
  thread and then registers \<open>TermSignalHandler\<close>, here the callback \<open>termHandler\<close>.
\<close>

definition le_sig_InstallDefaultTermHandler ::
  "blockEnv \<Rightarrow> sysEnv \<Rightarrow> handlerFunc \<Rightarrow> sigState \<Rightarrow> sigState result" where
  "le_sig_InstallDefaultTermHandler benv env termHandler s =
     (case le_sig_Block benv SIGTERM s of
        Inl e \<Rightarrow> Inl e
      | Inr s1 \<Rightarrow> le_sig_SetEventHandler env SIGTERM (Some termHandler) s1)"

text \<open>
  Calls of the two functions on one thread, in any order, each with what the environment
  answers during it; and the signals the \<open>le_sig_Block\<close> calls among them name, apart
  from \<open>SIGKILL\<close>, \<open>SIGSTOP\<close> and the signals the C library keeps for itself.
\<close>

datatype sigCall =
    SetEventHandler sysEnv int "handlerFunc option"
  | Block blockEnv int

fun threadCalls :: "sigCall list \<Rightarrow> sigState \<Rightarrow> sigState result" where
  "threadCalls [] s = Inr s"
| "threadCalls (SetEventHandler env signo h # cs) s =
     (case le_sig_SetEventHandler env signo h s of
        Inl e \<Rightarrow> Inl e
      | Inr s1 \<Rightarrow> threadCalls cs s1)"
| "threadCalls (Block env signo # cs) s =
     (case le_sig_Block env signo s of
        Inl e \<Rightarrow> Inl e
      | Inr s1 \<Rightarrow> threadCalls cs s1)"

fun blockedSignals :: "sigCall list \<Rightarrow> int set" where
  "blockedSignals [] = {}"
| "blockedSignals (Block env signo # cs) =
     (if signo = SIGKILL \<or> signo = SIGSTOP \<or> signo \<in> libcReserved env then blockedSignals cs
      else insert signo (blockedSignals cs))"
| "blockedSignals (SetEventHandler env signo h # cs) = blockedSignals cs"

subsection \<open>le\_sig\_DeleteAll\<close>

text \<open>
  Modelled from the spec: \<open>le_fdMonitor_Delete\<close> is not among the sources; the spec
  says that teardown "unregisters from the event loop".  What the event loop does with a
  reference it does not know is not said there; the model leaves the registrations as they
  are.
\<close>

definition le_fdMonitor_Delete :: "nat option \<Rightarrow> sigState \<Rightarrow> sigState" where
  "le_fdMonitor_Delete r s =
     (case r of None \<Rightarrow> s | Some k \<Rightarrow> s\<lparr>fdMonitors := (fdMonitors s)(k := None)\<rparr>)"

text \<open>
  Lines 784 to 796.  Every element of the script is what one \<open>close\<close> answers: its
  return value and \<open>errno\<close>.  A \<open>close\<close> that returns \<open>0\<close> has closed the descriptor;
  one that fails leaves the table as it is.  \<open>None\<close>: the script is used up and the loop
  is still retrying.
\<close>

fun closeLoop :: "(int \<times> int) list \<Rightarrow> int \<Rightarrow> sigState \<Rightarrow> sigState result option" where
  "closeLoop [] d s = None"
| "closeLoop ((n, errno) # rest) d s =
     (if n = 0 then Some (Inr (s\<lparr>signalFds := (signalFds s)(d := None)\<rparr>))
      else if errno \<noteq> EINTR then Some (Inl (LE_FATAL ''Could not close file descriptor.'', s))
      else closeLoop rest d s)"

text \<open>
  Lines 798 to 806: every handler object still in the list is popped and given back to its
  pool.
\<close>

fun releaseHandlerObjs :: "HandlerObj list \<Rightarrow> sigState \<Rightarrow> sigState" where
  "releaseHandlerObjs [] s = s"
| "releaseHandlerObjs (h # hs) s = releaseHandlerObjs hs (le_mem_Release s)"

text \<open>
  Lines 770 to 811.  After the handler objects the monitor object goes back to its pool;
  the thread-local slot is not written.
\<close>

definition le_sig_DeleteAll :: "(int \<times> int) list \<Rightarrow> sigState \<Rightarrow> sigState result option" where
  "le_sig_DeleteAll closes s =
     (case SigMonKey s of
        Null \<Rightarrow> Some (Inr s)
      | Released \<Rightarrow> Some (Inl (UseAfterFree, s))
      | Valid m \<Rightarrow>
          (case closeLoop closes (fd m) (le_fdMonitor_Delete (monitorRef m) s) of
             None \<Rightarrow> None
           | Some (Inl e) \<Rightarrow> Some (Inl e)
           | Some (Inr s2) \<Rightarrow>
               Some (Inr ((releaseHandlerObjs (handlerObjList m) s2)\<lparr>SigMonKey := Released\<rparr>))))"

subsection \<open>Observations on a thread\<close>

text \<open>
  The signals the module reserves for the crash report: the comment above
  \<open>ShowStackSignalHandler\<close> (line 197) names them, and the handler has a branch for each.
\<close>

definition FatalSignalSet :: "int set" where
  "FatalSignalSet = {SIGSEGV, SIGILL, SIGBUS, SIGFPE, SIGABRT, SIGTRAP}"

text \<open>The signal numbers whose handler object in the thread's list has a callback.\<close>

definition handledSignals :: "sigState \<Rightarrow> int set" where
  "handledSignals s =
     (case SigMonKey s of
        Valid m \<Rightarrow> sigNum ` set (filter (\<lambda>h. handler h \<noteq> None) (handlerObjList m))
      | Null \<Rightarrow> {}
      | Released \<Rightarrow> {})"

subsection \<open>Example inputs\<close>

text \<open>The names glibc's \<open>strsignal\<close> gives the signals used in the examples.\<close>

definition strsignalGlibc :: "int \<Rightarrow> string" where
  "strsignalGlibc n =
     (if n = SIGKILL then ''Killed''
      else if n = SIGTERM then ''Terminated''
      else if n = SIGSEGV then ''Segmentation fault''
      else ''Unknown signal'')"

definition exampleEnv :: sysEnv where
  "exampleEnv =
     \<lparr>strsignal = strsignalGlibc, sigValid = (\<lambda>n. 1 \<le> n \<and> n \<le> 64), setspecificOk = True,
      signalfdOk = True, newFd = 5, utf8CopyOk = True, newMonitorRef = 1\<rparr>"

text \<open>\<open>le_sig_Block(SIGTERM)\<close> called in the first thread of process 1234.\<close>

definition mainThreadEnv :: blockEnv where
  "mainThreadEnv =
     \<lparr>gettid = 1234, getpid = 1234, signalName = ''Terminated'', sigaddsetOk = True,
      sigmaskOk = True, libcReserved = {32, 33}\<rparr>"

text \<open>A thread that has not used the module: no monitor object, nothing blocked.\<close>

definition freshThread :: sigState where
  "freshThread =
     \<lparr>SigMonKey = Null, sigMask = {}, signalFds = Map.empty, fdMonitors = Map.empty,
      handlerObjsAllocated = 0, logMsgs = []\<rparr>"

text \<open>The same thread after \<open>le_sig_SetEventHandler(SIGTERM, f)\<close> with callback 1.\<close>

definition termThread :: sigState where
  "termThread =
     \<lparr>SigMonKey = Valid \<lparr>monitorRef = Some 1, fd = 5,
                          handlerObjList = [\<lparr>sigNum = SIGTERM, handler = Some 1\<rparr>]\<rparr>,
      sigMask = {}, signalFds = [5 \<mapsto> {SIGTERM}],
      fdMonitors = [1 \<mapsto> \<lparr>monFd = 5, monEvents = POLLIN\<rparr>],
      handlerObjsAllocated = 1, logMsgs = []\<rparr>"

text \<open>And after \<open>le_sig_DeleteAll()\<close>.\<close>

definition releasedThread :: sigState where
  "releasedThread =
     \<lparr>SigMonKey = Released, sigMask = {}, signalFds = Map.empty, fdMonitors = Map.empty,
      handlerObjsAllocated = 0, logMsgs = []\<rparr>"


text \<open>After a second registration, for signal 10 with callback 2.\<close>

definition twoHandlerThread :: sigState where
  "twoHandlerThread =
     \<lparr>SigMonKey = Valid \<lparr>monitorRef = Some 1, fd = 5,
                          handlerObjList = [\<lparr>sigNum = SIGTERM, handler = Some 1\<rparr>,
                                            \<lparr>sigNum = 10, handler = Some 2\<rparr>]\<rparr>,
      sigMask = {}, signalFds = [5 \<mapsto> {SIGTERM, 10}],
      fdMonitors = [1 \<mapsto> \<lparr>monFd = 5, monEvents = POLLIN\<rparr>],
      handlerObjsAllocated = 2, logMsgs = []\<rparr>"

text \<open>And after \<open>SIGTERM\<close> is registered again, with callback 3.\<close>

definition reRegisteredThread :: sigState where
  "reRegisteredThread =
     \<lparr>SigMonKey = Valid \<lparr>monitorRef = Some 1, fd = 5,
                          handlerObjList = [\<lparr>sigNum = SIGTERM, handler = Some 3\<rparr>,
                                            \<lparr>sigNum = 10, handler = Some 2\<rparr>]\<rparr>,
      sigMask = {}, signalFds = [5 \<mapsto> {SIGTERM, 10}],
      fdMonitors = [1 \<mapsto> \<lparr>monFd = 5, monEvents = POLLIN\<rparr>],
      handlerObjsAllocated = 2, logMsgs = []\<rparr>"

text \<open>\<open>termThread\<close> after its only handler is removed.\<close>

definition emptiedThread :: sigState where
  "emptiedThread =
     \<lparr>SigMonKey = Valid \<lparr>monitorRef = Some 1, fd = 5, handlerObjList = []\<rparr>,
      sigMask = {}, signalFds = [5 \<mapsto> {}],
      fdMonitors = [1 \<mapsto> \<lparr>monFd = 5, monEvents = POLLIN\<rparr>],
      handlerObjsAllocated = 1, logMsgs = []\<rparr>"

subsection \<open>Invariant of a thread's monitor object\<close>

text \<open>
  No two handler objects of a list carry the same signal number, every handler object
  carries a callback, and none is for a signal that \<open>le_sig_SetEventHandler\<close> refuses.
\<close>

definition goodList :: "HandlerObj list \<Rightarrow> bool" where
  "goodList l \<longleftrightarrow>
     distinct (map sigNum l) \<and> (\<forall>h \<in> set l. handler h \<noteq> None) \<and>
     (\<forall>h \<in> set l. \<not> reservedSig (sigNum h))"

text \<open>
  The thread has no monitor object, or a live one whose list is good and whose signalfd
  carries exactly the signal numbers of the list.
\<close>

definition ctxInv :: "sigState \<Rightarrow> bool" where
  "ctxInv s \<longleftrightarrow>
     (case SigMonKey s of
        Null \<Rightarrow> True
      | Released \<Rightarrow> False
      | Valid m \<Rightarrow> goodList (handlerObjList m) \<and>
           signalFds s (fd m) = Some (sigNum ` set (handlerObjList m)))"

section \<open>The event dispatcher (OurSigHandler)\<close>

text \<open>
  What one \<open>read(fd, &sigInfo, sizeof(sigInfo))\<close> answers: its return value, \<open>errno\<close>,
  and the field \<open>ssi_signo\<close> of the record read.
\<close>

record readAnswer =
  numBytesRead :: int
  readErrno :: int
  ssi_signo :: "32 word"

text \<open>
  A callback runs on the thread's state and returns, or ends the process.  The dispatcher
  is given the meaning of the callbacks as a function of the callback and the signal
  number.
\<close>

type_synonym callbacks = "handlerFunc \<Rightarrow> int \<Rightarrow> sigState \<Rightarrow> sigState result"

text \<open>
  The loop of lines 148 to 178 on the answers of the successive reads.  \<open>None\<close>: the
  answers are used up and the loop is still reading.
\<close>

fun drain :: "callbacks \<Rightarrow> readAnswer list \<Rightarrow> sigState \<Rightarrow> sigState result option" where
  "drain run [] s = None"
| "drain run (r # rs) s =
     (if 0 < numBytesRead r then
        (case SigMonKey s of
           Null \<Rightarrow> Some (Inl (LE_ASSERT ''monitorObjPtr != NULL'', s))
         | Released \<Rightarrow> Some (Inl (UseAfterFree, s))
         | Valid m \<Rightarrow>
             (case FindHandlerObj (sint (ssi_signo r)) (handlerObjList m) of
                None \<Rightarrow> drain run rs s
              | Some i \<Rightarrow>
                  (case handler (handlerObjList m ! i) of
                     None \<Rightarrow> drain run rs s
                   | Some f \<Rightarrow>
                       (case run f (sint (ssi_signo r)) s of
                          Inl e \<Rightarrow> Some (Inl e)
                        | Inr s1 \<Rightarrow> drain run rs s1))))
      else if numBytesRead r = 0 \<or> (numBytesRead r = - 1 \<and> readErrno r = EAGAIN) then
        Some (Inr s)
      else if numBytesRead r = - 1 \<and> readErrno r \<noteq> EINTR then
        Some (Inl (LE_FATAL ''Could not read from signal fd: %m'', s))
      else drain run rs s)"

text \<open>
  Lines 133 to 179.  \<open>events\<close> is the \<open>short\<close> the event loop passes; bits other than
  \<open>POLLIN\<close> are logged, and without \<open>POLLIN\<close> nothing is read.
\<close>

definition OurSigHandler ::
  "callbacks \<Rightarrow> readAnswer list \<Rightarrow> 16 word \<Rightarrow> sigState \<Rightarrow> sigState result option" where
  "OurSigHandler run reads events s =
     (if events AND NOT POLLIN \<noteq> 0 then
        (let s1 = s\<lparr>logMsgs := logMsgs s @
                   [''Unexpected event set (0x'' @ showHex (unat events) @
                    '') from signal fd.'']\<rparr>
         in if events AND POLLIN = 0 then Some (Inr s1) else drain run reads s1)
      else drain run reads s)"

text \<open>
  \<open>TermSignalHandler\<close> (lines 556 to 563), the callback the module installs for
  \<open>SIGTERM\<close>: it logs and exits with \<open>EXIT_SUCCESS\<close>.
\<close>

definition TermSignalHandler :: "int \<Rightarrow> sigState \<Rightarrow> sigState result" where
  "TermSignalHandler signo s = Inl (Exit 0, s\<lparr>logMsgs := logMsgs s @ [''Terminated'']\<rparr>)"

text \<open>Example callbacks: callback \<open>f\<close> notes its number and its argument in the log.\<close>

definition noteCall :: callbacks where
  "noteCall f signo s =
     Inr (s\<lparr>logMsgs := logMsgs s @ [''callback '' @ showNat f @ '' got '' @ showInt signo]\<rparr>)"

text \<open>
  Example answers of \<open>read\<close>: one whole record (\<open>sizeof(struct signalfd_siginfo)\<close> is
  128) for a signal, and a failure with a given \<open>errno\<close>.
\<close>

definition gotSignal :: "32 word \<Rightarrow> readAnswer" where
  "gotSignal n = \<lparr>numBytesRead = 128, readErrno = 0, ssi_signo = n\<rparr>"

definition readFails :: "int \<Rightarrow> readAnswer" where
  "readFails e = \<lparr>numBytesRead = - 1, readErrno = e, ssi_signo = 0\<rparr>"

definition EBADF :: int where "EBADF = 9"


section \<open>Installing the crash report (le\_sig\_InstallShowStackHandler)\<close>

datatype saFlag = SA_NOCLDSTOP | SA_SIGINFO | SA_RESETHAND

text \<open>
  A \<open>struct sigaction\<close> as the function fills it: the handler, by its name, and the
  flags.  \<open>SA_RESETHAND\<close> makes the kernel restore the default disposition when the
  handler is entered.
\<close>

record sigactionT =
  sa_sigaction :: string
  sa_flags :: "saFlag set"

text \<open>
  The process: the dispositions installed with \<open>sigaction\<close> (\<open>None\<close>: the disposition
  the process started with), the static variable \<open>GdbServerPort\<close> and the log.
\<close>

record procState =
  sigActions :: "int \<rightharpoonup> sigactionT"
  GdbServerPort :: "32 word"
  procLog :: "string list"

text \<open>
  What the environment answers: the two variables \<open>getenv\<close> is asked for, the return
  value of \<open>sigaction\<close> for each signal, and what \<open>sscanf(gdbPtr, "%u", ...)\<close> reads
  (\<open>None\<close> when it does not return 1).
\<close>

record installEnv =
  SIGNAL_SHOW_INFO :: "string option"
  GDBSERVER_PORT :: "string option"
  sigactionRet :: "int \<Rightarrow> int"
  sscanfUnsigned :: "string \<Rightarrow> 32 word option"

definition lowerChar :: "char \<Rightarrow> char" where
  "lowerChar c =
     (case map_of (zip ''ABCDEFGHIJKLMNOPQRSTUVWXYZ'' ''abcdefghijklmnopqrstuvwxyz'') c of
        None \<Rightarrow> c
      | Some l \<Rightarrow> l)"

text \<open>\<open>0 == strcasecmp(a, b)\<close>.\<close>

definition strcasecmpEq :: "string \<Rightarrow> string \<Rightarrow> bool" where
  "strcasecmpEq a b \<longleftrightarrow> map lowerChar a = map lowerChar b"

definition showStackAction :: sigactionT where
  "showStackAction =
     \<lparr>sa_sigaction = ''ShowStackSignalHandler'',
      sa_flags = {SA_NOCLDSTOP, SA_SIGINFO, SA_RESETHAND}\<rparr>"

text \<open>One \<open>sigaction\<close> call and the \<open>LE_CRIT\<close> that follows a failure.\<close>

definition installFor :: "installEnv \<Rightarrow> int \<Rightarrow> string \<Rightarrow> procState \<Rightarrow> procState" where
  "installFor env signo name p =
     (if sigactionRet env signo = 0
      then p\<lparr>sigActions := (sigActions p)(signo \<mapsto> showStackAction)\<rparr>
      else p\<lparr>procLog := procLog p @
                 [''Unable to install signal handler for '' @ name @ '' : %m'' @ nl]\<rparr>)"

definition le_sig_InstallShowStackHandler :: "installEnv \<Rightarrow> procState \<Rightarrow> procState" where
  "le_sig_InstallShowStackHandler env p =
     (if (case SIGNAL_SHOW_INFO env of
            None \<Rightarrow> False
          | Some v \<Rightarrow> strcasecmpEq v ''disable'' \<or> strcasecmpEq v ''no'')
      then p\<lparr>procLog := procLog p @
                 [''Handle of SEGV/ILL/BUS/FPE/ABRT and show information disabled'']\<rparr>
      else
        (let p1 = installFor env SIGSEGV ''SIGSEGV'' p;
             p2 = installFor env SIGBUS ''SIGBUS'' p1;
             p3 = installFor env SIGILL ''SIGILL'' p2;
             p4 = installFor env SIGFPE ''SIGFPE'' p3;
             p5 = installFor env SIGABRT ''SIGABRT'' p4
         in case GDBSERVER_PORT env of
              None \<Rightarrow> p5
            | Some g \<Rightarrow>
                (case sscanfUnsigned env g of
                   Some n \<Rightarrow> p5\<lparr>GdbServerPort := n\<rparr>
                 | None \<Rightarrow>
                     p5\<lparr>procLog := procLog p5 @
                          [''Incorrect GDBSERVER_PORT='' @ g @ ''. Discarded...'']\<rparr>)))"

text \<open>
  Example: a process at start, with neither variable set and every \<open>sigaction\<close>
  succeeding.
\<close>

definition startProcess :: procState where
  "startProcess = \<lparr>sigActions = Map.empty, GdbServerPort = 0, procLog = []\<rparr>"

definition plainInstallEnv :: installEnv where
  "plainInstallEnv =
     \<lparr>SIGNAL_SHOW_INFO = None, GDBSERVER_PORT = None, sigactionRet = (\<lambda>signo. 0),
      sscanfUnsigned = (\<lambda>text. None)\<rparr>"


section \<open>The crash report (ShowStackSignalHandler)\<close>

subsection \<open>What the handler does and what it is answered\<close>

text \<open>
  The handler runs in signal context and acts through system calls only.  Its actions, in
  order, are its trace: a \<open>write\<close> to descriptor 2 with the bytes asked for and the value
  returned, an \<open>open\<close> with the path and whether it succeeded, the \<open>close\<close> of the file
  opened last, \<open>raise\<close>, \<open>fork\<close> with its return value, \<open>execvpe\<close> with its arguments,
  and \<open>wait\<close>.
\<close>

datatype event =
    Write string int
  | Open string bool
  | Close
  | Raise int
  | Fork int
  | Exec "string list"
  | Wait

text \<open>
  What one \<open>read\<close> on an opened file answers: bytes (the call keeps at most as many as
  it asked for), or \<open>-1\<close>.  A file is the list of the answers of its successive reads;
  after the list every read answers 0.
\<close>

datatype readRes = RdBytes string | RdError

text \<open>The registers of \<open>struct sigcontext\<close> on ARM.\<close>

record armRegs =
  arm_r0 :: "32 word"
  arm_r1 :: "32 word"
  arm_r2 :: "32 word"
  arm_r3 :: "32 word"
  arm_r4 :: "32 word"
  arm_r5 :: "32 word"
  arm_r6 :: "32 word"
  arm_r7 :: "32 word"
  arm_r8 :: "32 word"
  arm_r9 :: "32 word"
  arm_r10 :: "32 word"
  arm_fp :: "32 word"
  arm_ip :: "32 word"
  arm_sp :: "32 word"
  arm_lr :: "32 word"
  arm_pc :: "32 word"
  arm_cpsr :: "32 word"

text \<open>
  The build decides how the stack is walked.  On ARM the handler reads the registers, its
  own frame address (\<open>__builtin_frame_address(0)\<close>) and the words of memory the frame
  pointers lead to.  On every other architecture it has the program counter of the fault
  and what \<open>backtrace\<close> stores.
\<close>

datatype archContext =
    Arm armRegs "32 word" "32 word \<Rightarrow> 32 word"
  | Generic nat "nat list"

text \<open>
  What the handler is answered: process and thread id, the fault address, the context of
  the architecture, the return value of the \<open>k\<close>-th \<open>write\<close> (counted from 0) when it is
  asked for \<open>n\<close> bytes, the three files (\<open>None\<close>: \<open>open\<close> returns \<open>-1\<close>), the return
  value of \<open>fork\<close>, and whether \<open>execvpe\<close> returns.
\<close>

record crashEnv =
  crashPid :: int
  crashTid :: int
  si_addr :: nat
  archCtx :: archContext
  writeRet :: "nat \<Rightarrow> nat \<Rightarrow> int"
  versionFile :: "readRes list option"
  cmdlineFile :: "readRes list option"
  mapsFile :: "readRes list option"
  forkRet :: int
  execReturns :: bool

text \<open>
  Where the handler is after a step: still going; returned; still walking ARM frames when
  the fuel of the model ran out; or replaced by the program \<open>execvpe\<close> started.
\<close>

datatype progress =
    Going "event list"
  | Returned "event list"
  | Spinning "event list"
  | Replaced "event list"

fun traceOf :: "progress \<Rightarrow> event list" where
  "traceOf (Going t) = t"
| "traceOf (Returned t) = t"
| "traceOf (Spinning t) = t"
| "traceOf (Replaced t) = t"

fun isWrite :: "event \<Rightarrow> bool" where
  "isWrite (Write buf r) = True"
| "isWrite e = False"

definition writesDone :: "event list \<Rightarrow> nat" where
  "writesDone t = length (filter isWrite t)"

subsection \<open>CHECK\_WRITE\<close>

text \<open>
  One \<open>write(2, buffer, expectedSize)\<close> and the comparison of its return value with
  \<open>expectedSize\<close>.  The return value \<open>-1\<close> differs from every size, under the unsigned
  comparison of the macro as under the signed one of line 323.
\<close>

definition doWrite :: "crashEnv \<Rightarrow> string \<Rightarrow> event list \<Rightarrow> event list \<times> bool" where
  "doWrite env buf t =
     (let r = writeRet env (writesDone t) (length buf)
      in (t @ [Write buf r], r = int (length buf)))"

text \<open>Lines 185 to 193: on a short write, \<open>raise(sigNum)\<close> and \<open>return\<close>.\<close>

definition CHECK_WRITE :: "crashEnv \<Rightarrow> int \<Rightarrow> string \<Rightarrow> event list \<Rightarrow> progress" where
  "CHECK_WRITE env signo buf t =
     (case doWrite env buf t of
        (t1, ok) \<Rightarrow> if ok then Going t1 else Returned (t1 @ [Raise signo]))"

text \<open>Statements in sequence: the next one runs when the one before is still going.\<close>

fun runSteps :: "(event list \<Rightarrow> progress) list \<Rightarrow> event list \<Rightarrow> progress" where
  "runSteps [] t = Going t"
| "runSteps (f # fs) t =
     (case f t of
        Going t1 \<Rightarrow> runSteps fs t1
      | Returned t1 \<Rightarrow> Returned t1
      | Spinning t1 \<Rightarrow> Spinning t1
      | Replaced t1 \<Rightarrow> Replaced t1)"

subsection \<open>The sections of the report\<close>

definition pcPtr :: "crashEnv \<Rightarrow> nat" where
  "pcPtr env =
     (case archCtx env of
        Arm regs base mem \<Rightarrow> unat (arm_pc regs)
      | Generic pc addrs \<Rightarrow> pc)"

text \<open>Lines 234 to 236.\<close>

definition showProcess :: "crashEnv \<Rightarrow> int \<Rightarrow> event list \<Rightarrow> progress" where
  "showProcess env signo =
     CHECK_WRITE env signo
       (snprintf256 (''PROCESS: '' @ showInt (crashPid env) @ '' ,TID '' @
                     showInt (crashTid env) @ nl))"

text \<open>Lines 238 to 241.\<close>

definition showSignal :: "crashEnv \<Rightarrow> int \<Rightarrow> event list \<Rightarrow> progress" where
  "showSignal env signo =
     CHECK_WRITE env signo
       (snprintf256 (''SIGNAL: '' @ showInt signo @ '', ADDR '' @
                     showPtr (if SIGABRT = signo then 0 else si_addr env) @ '', AT '' @
                     showPtr (pcPtr env) @ nl))"

text \<open>Lines 243 to 274.\<close>

definition explainText :: "crashEnv \<Rightarrow> int \<Rightarrow> string" where
  "explainText env signo =
     (if signo = SIGSEGV then ''ILLEGAL ADDRESS '' @ showPtr (si_addr env) @ nl
      else if signo = SIGFPE then ''FLOATING POINT EXCEPTION AT '' @ showPtr (si_addr env) @ nl
      else if signo = SIGTRAP then ''TRAP AT '' @ showPtr (si_addr env) @ nl
      else if signo = SIGABRT then ''ABORT'' @ nl
      else if signo = SIGILL then ''ILLEGAL INSTRUCTION AT '' @ showPtr (si_addr env) @ nl
      else if signo = SIGBUS then ''BUS ERROR AT '' @ showPtr (si_addr env) @ nl
      else ''UNEXPECTED SIGNAL '' @ showInt signo @ nl)"

definition explainSignal :: "crashEnv \<Rightarrow> int \<Rightarrow> event list \<Rightarrow> progress" where
  "explainSignal env signo = CHECK_WRITE env signo (snprintf256 (explainText env signo))"

text \<open>One \<open>read(fd, sigString, count)\<close>: its return value and the bytes it stored.\<close>

fun readOnce :: "nat \<Rightarrow> readRes list \<Rightarrow> int \<times> string" where
  "readOnce count [] = (0, [])"
| "readOnce count (RdError # rest) = (- 1, [])"
| "readOnce count (RdBytes bs # rest) = (int (length (take count bs)), take count bs)"

definition versionPath :: string where
  "versionPath = ''/legato/systems/current/version''"

text \<open>Lines 276 to 296.\<close>

definition dumpVersion :: "crashEnv \<Rightarrow> int \<Rightarrow> event list \<Rightarrow> progress" where
  "dumpVersion env signo =
     runSteps
       [CHECK_WRITE env signo (snprintf256 (''LEGATO VERSION'' @ nl)),
        (\<lambda>t. case versionFile env of
                None \<Rightarrow> Going (t @ [Open versionPath False])
              | Some answers \<Rightarrow>
                  (case readOnce 256 answers of
                     (rc, bytes) \<Rightarrow>
                       if 0 < rc then
                         runSteps [CHECK_WRITE env signo bytes, CHECK_WRITE env signo nl]
                           (t @ [Open versionPath True, Close])
                       else
                         CHECK_WRITE env signo (snprintf256 (''Cannot read legato version'' @ nl))
                           (t @ [Open versionPath True, Close])))]"

text \<open>
  Lines 307 to 331: every read of up to 256 bytes is written out with its zero bytes
  turned into spaces; a short write closes the file, raises and returns.
\<close>

fun cmdlineLoop :: "crashEnv \<Rightarrow> int \<Rightarrow> readRes list \<Rightarrow> event list \<Rightarrow> progress" where
  "cmdlineLoop env signo [] t = Going t"
| "cmdlineLoop env signo (RdError # answers) t = Going t"
| "cmdlineLoop env signo (RdBytes bs # answers) t =
     (if take 256 bs = [] then Going t
      else
        (case doWrite env (map (\<lambda>c. if c = CHR 0x00 then CHR '' '' else c) (take 256 bs)) t of
           (t1, ok) \<Rightarrow>
             if ok then cmdlineLoop env signo answers t1
             else Returned (t1 @ [Close, Raise signo])))"

text \<open>Lines 298 to 334.\<close>

definition dumpCmdline :: "crashEnv \<Rightarrow> int \<Rightarrow> event list \<Rightarrow> progress" where
  "dumpCmdline env signo =
     runSteps
       [CHECK_WRITE env signo (snprintf256 (''PROCESS COMMAND LINE'' @ nl)),
        (\<lambda>t. case cmdlineFile env of
                None \<Rightarrow>
                  Going (t @ [Open (snprintf256 (''/proc/'' @ showInt (crashPid env) @ ''/cmdline''))
                                False])
              | Some answers \<Rightarrow>
                  runSteps
                    [cmdlineLoop env signo answers,
                     (\<lambda>t1. CHECK_WRITE env signo nl (t1 @ [Close]))]
                    (t @ [Open (snprintf256 (''/proc/'' @ showInt (crashPid env) @ ''/cmdline''))
                            True]))]"

text \<open>
  Lines 345 to 369, read by read.  \<open>line\<close> holds the bytes stored since the buffer was
  last started over, so \<open>len\<close> is its length.  A line feed writes the line out; a short
  write closes the file, raises and returns.  When 256 bytes are stored without a line
  feed the buffer is started over and those bytes are not written.
\<close>

fun mapsLoop :: "crashEnv \<Rightarrow> int \<Rightarrow> readRes list \<Rightarrow> string \<Rightarrow> event list \<Rightarrow> progress" where
  "mapsLoop env signo [] line t = Going t"
| "mapsLoop env signo (RdError # answers) line t = Going t"
| "mapsLoop env signo (RdBytes bs # answers) line t =
     (case take 1 bs of
        [] \<Rightarrow> Going t
      | c # cs \<Rightarrow>
          if c = CHR 0x0A then
            (case doWrite env (line @ [c]) t of
               (t1, ok) \<Rightarrow>
                 if ok then mapsLoop env signo answers [] t1
                 else Returned (t1 @ [Close, Raise signo]))
          else if length (line @ [c]) < 256 then mapsLoop env signo answers (line @ [c]) t
          else mapsLoop env signo answers [] t)"

text \<open>Lines 336 to 371.\<close>

definition dumpMaps :: "crashEnv \<Rightarrow> int \<Rightarrow> event list \<Rightarrow> progress" where
  "dumpMaps env signo =
     runSteps
       [CHECK_WRITE env signo (snprintf256 (''PROCESS MAP'' @ nl)),
        (\<lambda>t. case mapsFile env of
                None \<Rightarrow>
                  Going (t @ [Open (snprintf256 (''/proc/'' @ showInt (crashPid env) @ ''/maps''))
                                False])
              | Some answers \<Rightarrow>
                  runSteps
                    [mapsLoop env signo answers [],
                     (\<lambda>t1. Going (t1 @ [Close]))]
                    (t @ [Open (snprintf256 (''/proc/'' @ showInt (crashPid env) @ ''/maps''))
                            True]))]"

subsection \<open>The backtrace\<close>

text \<open>
  Lines 446 to 456, every architecture but ARM: the addresses \<open>backtrace\<close> stored, from
  the third on, numbered from 0.
\<close>

fun backtraceLines :: "crashEnv \<Rightarrow> int \<Rightarrow> nat \<Rightarrow> nat list \<Rightarrow> event list \<Rightarrow> progress" where
  "backtraceLines env signo k [] t = Going t"
| "backtraceLines env signo k (a # addrs) t =
     (case CHECK_WRITE env signo
             (snprintf256 (''#'' @ showInt (int k) @ '' : '' @ showPtr a @ nl)) t of
        Going t1 \<Rightarrow> backtraceLines env signo (Suc k) addrs t1
      | Returned t1 \<Rightarrow> Returned t1
      | Spinning t1 \<Rightarrow> Spinning t1
      | Replaced t1 \<Rightarrow> Replaced t1)"

text \<open>
  Lines 382 to 415, ARM: the walk along the frame pointers.  \<open>frame - 1\<close> is four bytes
  below \<open>frame\<close>, and \<open>base + 1024*1024\<close> is 4194304 bytes above \<open>base\<close>.  Nothing in the
  loop bounds the number of rounds when the link register equals the program counter, so
  the model counts rounds down from \<open>fuel\<close>.
\<close>

fun armFrames ::
  "nat \<Rightarrow> crashEnv \<Rightarrow> int \<Rightarrow> armRegs \<Rightarrow> 32 word \<Rightarrow> (32 word \<Rightarrow> 32 word) \<Rightarrow>
   32 word \<Rightarrow> 32 word \<Rightarrow> event list \<Rightarrow> progress" where
  "armFrames 0 env signo regs base mem addr frame t = Spinning t"
| "armFrames (Suc fuel) env signo regs base mem addr frame t =
     (case CHECK_WRITE env signo
             (snprintf256 ((if addr = arm_pc regs then ''PC'' else ''LR'') @ '' at '' @
                           showHex08 addr @ nl)) t of
        Going t1 \<Rightarrow>
          if base + 4194304 < frame \<or> frame < base then Going t1
          else if addr = arm_pc regs then
            armFrames fuel env signo regs base mem (arm_lr regs) (mem (frame - 4)) t1
          else if frame \<le> mem (frame - 4) then Going t1
          else armFrames fuel env signo regs base mem (mem (mem (frame - 4))) (mem (frame - 4)) t1
      | Returned t1 \<Rightarrow> Returned t1
      | Spinning t1 \<Rightarrow> Spinning t1
      | Replaced t1 \<Rightarrow> Replaced t1)"

text \<open>Lines 416 to 433, ARM: the register dump.\<close>

definition armRegisters :: "crashEnv \<Rightarrow> int \<Rightarrow> armRegs \<Rightarrow> event list \<Rightarrow> progress" where
  "armRegisters env signo regs =
     runSteps
       [CHECK_WRITE env signo
          (snprintf256 (''r0  '' @ showHex08 (arm_r0 regs) @ '' r1  '' @ showHex08 (arm_r1 regs) @
                        '' r2  '' @ showHex08 (arm_r2 regs) @ '' r3  '' @ showHex08 (arm_r3 regs) @
                        '' r4  '' @ showHex08 (arm_r4 regs) @ ''  r5  '' @ showHex08 (arm_r5 regs) @
                        nl)),
        CHECK_WRITE env signo
          (snprintf256 (''r6  '' @ showHex08 (arm_r6 regs) @ '' r7  '' @ showHex08 (arm_r7 regs) @
                        '' r8  '' @ showHex08 (arm_r8 regs) @ '' r9  '' @ showHex08 (arm_r9 regs) @
                        '' r10 '' @ showHex08 (arm_r10 regs) @ '' cpsr '' @
                        showHex08 (arm_cpsr regs) @ nl)),
        CHECK_WRITE env signo
          (snprintf256 (''fp  '' @ showHex08 (arm_fp regs) @ '' ip  '' @ showHex08 (arm_ip regs) @
                        '' sp  '' @ showHex08 (arm_sp regs) @ '' lr  '' @ showHex08 (arm_lr regs) @
                        '' pc  '' @ showHex08 (arm_pc regs) @ nl)),
        CHECK_WRITE env signo
          (snprintf256 (''STACK '' @ showHex08 (arm_sp regs) @ '', FRAME '' @
                        showHex08 (arm_fp regs) @ nl))]"

text \<open>
  Lines 434 to 442, ARM: \<open>n\<close> more lines of eight words each, from \<open>frame\<close> upwards
  (32 lines in all).
\<close>

fun stackLines ::
  "crashEnv \<Rightarrow> int \<Rightarrow> (32 word \<Rightarrow> 32 word) \<Rightarrow> nat \<Rightarrow> 32 word \<Rightarrow> event list \<Rightarrow> progress" where
  "stackLines env signo mem 0 frame t = Going t"
| "stackLines env signo mem (Suc n) frame t =
     (case CHECK_WRITE env signo
             (snprintf256 (showHex08 frame @ '':'' @
                           concat (map (\<lambda>j. '' '' @ showHex08 (mem (frame + 4 * of_nat j)))
                                       [0..<8]) @ nl)) t of
        Going t1 \<Rightarrow> stackLines env signo mem n (frame + 32) t1
      | Returned t1 \<Rightarrow> Returned t1
      | Spinning t1 \<Rightarrow> Spinning t1
      | Replaced t1 \<Rightarrow> Replaced t1)"

text \<open>Lines 373 to 458.\<close>

definition dumpBacktrace :: "nat \<Rightarrow> crashEnv \<Rightarrow> int \<Rightarrow> event list \<Rightarrow> progress" where
  "dumpBacktrace fuel env signo =
     runSteps
       [CHECK_WRITE env signo (snprintf256 (''BACKTRACE'' @ nl)),
        (\<lambda>t. case archCtx env of
                Arm regs base mem \<Rightarrow>
                  runSteps
                    [armFrames fuel env signo regs base mem (arm_pc regs) base,
                     armRegisters env signo regs,
                     stackLines env signo mem 32 (arm_sp regs)] t
              | Generic pc addrs \<Rightarrow>
                  backtraceLines env signo 0 (drop 2 (take 12 addrs)) t)]"

subsection \<open>The end of the handler\<close>

text \<open>
  Lines 462 to 486: with a port set, \<open>fork\<close>; the child calls \<open>execvpe\<close>; whoever is
  still this program waits, raises the signal and returns.  The two strings are printed
  into buffers of 10 bytes.
\<close>

definition finish :: "crashEnv \<Rightarrow> 32 word \<Rightarrow> int \<Rightarrow> event list \<Rightarrow> progress" where
  "finish env port signo t =
     (if port \<noteq> 0 then
        (if forkRet env = 0 then
           (if execReturns env then
              Returned (t @ [Fork (forkRet env),
                             Exec [''gdbserver'', take 9 ('':'' @ showNat (unat port)),
                                   ''--attach'', take 9 (showInt (crashPid env))],
                             Wait, Raise signo])
            else
              Replaced (t @ [Fork (forkRet env),
                             Exec [''gdbserver'', take 9 ('':'' @ showNat (unat port)),
                                   ''--attach'', take 9 (showInt (crashPid env))]]))
         else Returned (t @ [Fork (forkRet env), Wait, Raise signo]))
      else Returned (t @ [Raise signo]))"

text \<open>
  Lines 209 to 487.  \<open>port\<close> is the static variable \<open>GdbServerPort\<close>; the handler starts
  with an empty trace.
\<close>

definition ShowStackSignalHandler :: "nat \<Rightarrow> crashEnv \<Rightarrow> 32 word \<Rightarrow> int \<Rightarrow> progress" where
  "ShowStackSignalHandler fuel env port signo =
     runSteps
       [showProcess env signo,
        showSignal env signo,
        explainSignal env signo,
        dumpVersion env signo,
        dumpCmdline env signo,
        dumpMaps env signo,
        dumpBacktrace fuel env signo,
        CHECK_WRITE env signo (snprintf256 (''DONE'' @ nl)),
        finish env port signo] []"


subsection \<open>Traces and short writes\<close>

text \<open>A \<open>write\<close> that returned something else than the number of bytes asked for.\<close>

fun failedWrite :: "event \<Rightarrow> bool" where
  "failedWrite (Write buf r) = (r \<noteq> int (length buf))"
| "failedWrite e = False"

definition allWritten :: "event list \<Rightarrow> bool" where
  "allWritten t = list_all (\<lambda>e. \<not> failedWrite e) t"

text \<open>
  How a trace may end once the handler has returned: after the last step of the handler,
  or after one short write, with at most the \<open>close\<close> of the file being read between the
  short write and \<open>raise\<close>.
\<close>

definition endsProperly :: "int \<Rightarrow> event list \<Rightarrow> bool" where
  "endsProperly signo t \<longleftrightarrow>
     (\<exists>pre. allWritten pre \<and>
        (t = pre @ [Raise signo] \<or>
         (\<exists>e. failedWrite e \<and>
              (t = pre @ [e, Raise signo] \<or> t = pre @ [e, Close, Raise signo]))))"

fun okProgress :: "int \<Rightarrow> progress \<Rightarrow> bool" where
  "okProgress signo (Going t) = allWritten t"
| "okProgress signo (Returned t) = endsProperly signo t"
| "okProgress signo (Spinning t) = allWritten t"
| "okProgress signo (Replaced t) = allWritten t"

text \<open>A step that, started after successful writes only, ends in one of these ways.\<close>

definition stepOk :: "int \<Rightarrow> (event list \<Rightarrow> progress) \<Rightarrow> bool" where
  "stepOk signo f \<longleftrightarrow> (\<forall>t. allWritten t \<longrightarrow> okProgress signo (f t))"


text \<open>Every \<open>write\<close> returns the number of bytes it was asked for.\<close>

definition writesSucceed :: "crashEnv \<Rightarrow> bool" where
  "writesSucceed env \<longleftrightarrow> (\<forall>k n. writeRet env k n = int n)"

subsection \<open>Example crashes\<close>

text \<open>
  A segmentation fault at address 0 in process 1234, on an architecture other than ARM,
  with no port set.  None of the three files can be opened, \<open>backtrace\<close> stores nothing
  and every write succeeds.
\<close>

definition noFilesEnv :: crashEnv where
  "noFilesEnv =
     \<lparr>crashPid = 1234, crashTid = 1234, si_addr = 0, archCtx = Generic 4096 [],
      writeRet = (\<lambda>k n. int n), versionFile = None, cmdlineFile = None, mapsFile = None,
      forkRet = 0, execReturns = False\<rparr>"

text \<open>The same, but the version file opens and its first read returns 0.\<close>

definition emptyVersionEnv :: crashEnv where
  "emptyVersionEnv = noFilesEnv\<lparr>versionFile := Some []\<rparr>"

text \<open>The same as \<open>noFilesEnv\<close>, but the second \<open>write\<close> returns \<open>-1\<close>.\<close>

definition brokenOutputEnv :: crashEnv where
  "brokenOutputEnv = noFilesEnv\<lparr>writeRet := (\<lambda>k n. if k = 1 then - 1 else int n)\<rparr>"

text \<open>
  The same as \<open>noFilesEnv\<close>, but the memory map opens and has one line, and the
  \<open>write\<close> of that line (the seventh of the handler) returns 2.
\<close>

definition brokenMapsEnv :: crashEnv where
  "brokenMapsEnv =
     noFilesEnv\<lparr>mapsFile := Some [RdBytes ''r'', RdBytes ''w'', RdBytes ''x'', RdBytes nl],
                writeRet := (\<lambda>k n. if k = 6 then 2 else int n)\<rparr>"

text \<open>The texts the handler asked \<open>write\<close> to put out, in order.\<close>

fun writtenTexts :: "event list \<Rightarrow> string list" where
  "writtenTexts [] = []"
| "writtenTexts (Write buf r # t) = buf # writtenTexts t"
| "writtenTexts (e # t) = writtenTexts t"


section \<open>Properties of the handler registry\<close>

lemmas sig_defs = SIGILL_def SIGTRAP_def SIGABRT_def SIGIOT_def SIGBUS_def SIGFPE_def
  SIGKILL_def SIGSEGV_def SIGTERM_def SIGSTOP_def SIGSYS_def


subsection \<open>Lists of handler objects\<close>

lemma FindHandlerObj_None: "FindHandlerObj signo l = None \<longleftrightarrow> signo \<notin> sigNum ` set l"
  by (induction l) auto

lemma FindHandlerObj_Some:
  "FindHandlerObj signo l = Some i \<Longrightarrow> i < length l \<and> sigNum (l ! i) = signo \<and> signo \<notin> sigNum ` set (take i l)"
proof (induction l arbitrary: i)
  case Nil then show ?case by simp
next
  case (Cons h hs)
  show ?case
  proof (cases "sigNum h = signo")
    case True with Cons.prems show ?thesis by simp
  next
    case False
    with Cons.prems obtain j where j: "FindHandlerObj signo hs = Some j" "i = Suc j" by auto
    from Cons.IH[OF j(1)] j(2) False show ?thesis by auto
  qed
qed

lemma buildSigSet_Some:
  "buildSigSet valid l acc = Some S \<Longrightarrow> S = acc \<union> sigNum ` set l"
  by (induction l arbitrary: acc) (auto split: if_splits)

lemma set_remove_nth_subset: "set (take i l @ drop (Suc i) l) \<subseteq> set l"
  by (auto dest: in_set_takeD in_set_dropD)

lemma distinct_remove_nth0: "distinct xs \<Longrightarrow> distinct (take i xs @ drop (Suc i) xs)"
proof (induction xs arbitrary: i)
  case Nil then show ?case by simp
next
  case (Cons a l)
  show ?case
  proof (cases i)
    case 0 with Cons.prems show ?thesis by simp
  next
    case (Suc j)
    have "a \<notin> set (take j l)" "a \<notin> set (drop (Suc j) l)"
      using Cons.prems by (auto dest: in_set_takeD in_set_dropD)
    moreover have "distinct (take j l @ drop (Suc j) l)" using Cons by simp
    ultimately show ?thesis using Suc by simp
  qed
qed

lemma distinct_remove_nth: "distinct (map f l) \<Longrightarrow> distinct (map f (take i l @ drop (Suc i) l))"
  using distinct_remove_nth0[of "map f l" i] by (simp add: take_map drop_map)

lemma map_sigNum_update:
  "map sigNum (l[i := (l ! i)\<lparr>handler := h\<rparr>]) = map sigNum l"
  by (cases "i < length l") (simp_all add: map_update list_update_same_conv list_update_beyond)

subsection \<open>One call keeps the invariant\<close>

lemma setHandlerObj_goodList:
  assumes "goodList (handlerObjList m)" "setHandlerObj signo h m s = Some (m1, s1)"
    and nr: "\<not> reservedSig signo"
  shows "goodList (handlerObjList m1)"
proof (cases "FindHandlerObj signo (handlerObjList m)")
  case None
  then have "signo \<notin> sigNum ` set (handlerObjList m)" by (simp add: FindHandlerObj_None)
  with assms None show ?thesis
    by (auto simp: setHandlerObj_def le_dls_Queue_def le_dls_Remove_def le_mem_ForceAlloc_def goodList_def split: option.splits)
next
  case (Some i)
  note fi = FindHandlerObj_Some[OF Some]
  show ?thesis
  proof (cases h)
    case None
    with assms Some have l1: "handlerObjList m1 = take i (handlerObjList m) @ drop (Suc i) (handlerObjList m)"
      by (auto simp: setHandlerObj_def le_dls_Queue_def le_dls_Remove_def le_mem_ForceAlloc_def)
    have "set (handlerObjList m1) \<subseteq> set (handlerObjList m)"
      unfolding l1 by (rule set_remove_nth_subset)
    moreover have "distinct (map sigNum (handlerObjList m1))"
      unfolding l1 using assms(1) distinct_remove_nth[of sigNum "handlerObjList m" i]
      by (simp add: goodList_def)
    ultimately show ?thesis using assms(1) by (auto simp: goodList_def)
  next
    case (Some f)
    with assms \<open>FindHandlerObj signo (handlerObjList m) = Some i\<close>
    have l1: "handlerObjList m1 = (handlerObjList m)[i := (handlerObjList m ! i)\<lparr>handler := Some f\<rparr>]"
      by (auto simp: setHandlerObj_def le_dls_Queue_def le_dls_Remove_def le_mem_ForceAlloc_def)
    have same: "map sigNum (handlerObjList m1) = map sigNum (handlerObjList m)"
      unfolding l1 by (rule map_sigNum_update)
    have "set (map sigNum (handlerObjList m1)) = set (map sigNum (handlerObjList m))"
      using same by simp
    then have img: "sigNum ` set (handlerObjList m1) = sigNum ` set (handlerObjList m)" by simp
    have "\<forall>x \<in> set (handlerObjList m1). \<not> reservedSig (sigNum x)"
    proof
      fix x assume "x \<in> set (handlerObjList m1)"
      then have "sigNum x \<in> sigNum ` set (handlerObjList m1)" by (rule imageI)
      with img have "sigNum x \<in> sigNum ` set (handlerObjList m)" by simp
      then obtain y where "y \<in> set (handlerObjList m)" "sigNum x = sigNum y" by auto
      with assms(1) show "\<not> reservedSig (sigNum x)" by (simp add: goodList_def)
    qed
    moreover have "\<forall>x \<in> set (handlerObjList m1). handler x \<noteq> None"
      unfolding l1 using assms(1) by (auto simp: goodList_def dest!: set_update_subset_insert[THEN subsetD])
    ultimately show ?thesis using assms(1) same by (simp add: goodList_def)
  qed
qed

lemma setHandlerObj_frame:
  "setHandlerObj signo h m s = Some (m1, s1) \<Longrightarrow>
     sigMask s1 = sigMask s \<and> signalFds s1 = signalFds s \<and> fdMonitors s1 = fdMonitors s \<and>
     logMsgs s1 = logMsgs s \<and> fd m1 = fd m \<and> monitorRef m1 = monitorRef m"
  by (auto simp: setHandlerObj_def le_dls_Queue_def le_dls_Remove_def le_mem_ForceAlloc_def split: option.splits)

lemma signalfd_result:
  "signalfd env d sigSet s = (r, s1) \<Longrightarrow> r \<noteq> - 1 \<Longrightarrow>
     signalFds s1 = (signalFds s)(r \<mapsto> sigSet - {SIGKILL, SIGSTOP}) \<and> sigMask s1 = sigMask s \<and>
     fdMonitors s1 = fdMonitors s \<and> SigMonKey s1 = SigMonKey s \<and>
     handlerObjsAllocated s1 = handlerObjsAllocated s \<and> logMsgs s1 = logMsgs s \<and>
     (d \<noteq> - 1 \<longrightarrow> r = d)"
  by (auto simp: signalfd_def split: if_splits option.splits)

lemma updateSignalFd_Inr:
  assumes "updateSignalFd env m s = Inr s'"
  shows "\<exists>m'. SigMonKey s' = Valid m' \<and> handlerObjList m' = handlerObjList m \<and>
           signalFds s' (fd m') = Some (sigNum ` set (handlerObjList m) - {SIGKILL, SIGSTOP}) \<and>
           sigMask s' = sigMask s \<and> monitorRef m' \<noteq> None \<and> fd m' \<noteq> - 1 \<and>
           (fd m \<noteq> - 1 \<longrightarrow> fd m' = fd m)"
proof -
  from assms obtain S where S: "buildSigSet (sigValid env) (handlerObjList m) {} = Some S"
    by (auto simp: updateSignalFd_def split: option.splits)
  have S': "S = sigNum ` set (handlerObjList m)" using buildSigSet_Some[OF S] by simp
  obtain r s1 where r: "signalfd env (fd m) S s = (r, s1)" by (cases "signalfd env (fd m) S s")
  from assms S r have ne: "r \<noteq> - 1" by (auto simp: updateSignalFd_def split: if_splits)
  note sr = signalfd_result[OF r ne]
  show ?thesis
    using assms S r ne sr S'
    by (auto simp: updateSignalFd_def le_fdMonitor_Create_def split: option.splits if_splits)
qed

lemma goodList_signalfd_set:
  "goodList l \<Longrightarrow> sigNum ` set l - {SIGKILL, SIGSTOP} = sigNum ` set l"
  by (auto simp: goodList_def reservedSig_def)

lemma setEventHandler_not_reserved:
  "le_sig_SetEventHandler env signo h s = Inr s' \<Longrightarrow> \<not> reservedSig signo"
  by (auto simp: le_sig_SetEventHandler_def split: if_splits)

lemma setEventHandler_inv:
  assumes "ctxInv s" "le_sig_SetEventHandler env signo h s = Inr s'"
  shows "ctxInv s' \<and> sigMask s' = sigMask s"
proof (cases "SigMonKey s")
  case Null
  show ?thesis
  proof (cases h)
    case None
    with Null assms show ?thesis by (auto simp: le_sig_SetEventHandler_def split: if_splits)
  next
    case (Some f)
    let ?s0 = "s\<lparr>SigMonKey := Valid newMonitorObj\<rparr>"
    from assms Null Some have r: "setHandlerIn env signo h newMonitorObj ?s0 = Inr s'"
      by (auto simp: le_sig_SetEventHandler_def split: if_splits)
    then obtain m1 s1 where ms: "setHandlerObj signo h newMonitorObj ?s0 = Some (m1, s1)"
      and u: "updateSignalFd env m1 s1 = Inr s'"
      using Some by (auto simp: setHandlerIn_def setHandlerObj_def le_dls_Queue_def le_dls_Remove_def le_mem_ForceAlloc_def newMonitorObj_def split: option.splits)
    have "goodList (handlerObjList newMonitorObj)" by (simp add: goodList_def newMonitorObj_def)
    from setHandlerObj_goodList[OF this ms setEventHandler_not_reserved[OF assms(2)]]
    have g: "goodList (handlerObjList m1)" .
    from updateSignalFd_Inr[OF u] setHandlerObj_frame[OF ms] g goodList_signalfd_set[OF g]
    show ?thesis by (auto simp: ctxInv_def)
  qed
next
  case (Valid m)
  from assms Valid have r: "setHandlerIn env signo h m s = Inr s'"
    by (auto simp: le_sig_SetEventHandler_def split: if_splits)
  show ?thesis
  proof (cases "setHandlerObj signo h m s")
    case None
    with r have "s' = s" by (simp add: setHandlerIn_def)
    with assms show ?thesis by simp
  next
    case (Some p)
    obtain m1 s1 where p: "p = (m1, s1)" by (cases p)
    with Some r have u: "updateSignalFd env m1 s1 = Inr s'" by (simp add: setHandlerIn_def)
    from assms(1) Valid have "goodList (handlerObjList m)" by (simp add: ctxInv_def)
    from setHandlerObj_goodList[OF this Some[unfolded p] setEventHandler_not_reserved[OF assms(2)]]
    have g: "goodList (handlerObjList m1)" .
    from updateSignalFd_Inr[OF u] setHandlerObj_frame[OF Some[unfolded p]] g goodList_signalfd_set[OF g]
    show ?thesis by (auto simp: ctxInv_def)
  qed
next
  case Released
  with assms show ?thesis by (simp add: ctxInv_def)
qed

lemma le_sig_Block_Inr:
  assumes "le_sig_Block env signo s = Inr s'"
  shows "SigMonKey s' = SigMonKey s \<and> signalFds s' = signalFds s \<and>
         sigMask s' = sigMask s \<union> blockedSignals [Block env signo]"
  using assms by (auto simp: le_sig_Block_def pthread_sigmask_BLOCK_def Let_def split: if_splits)

lemma le_sig_Block_inv:
  assumes "ctxInv s" "le_sig_Block env signo s = Inr s'"
  shows "ctxInv s' \<and> sigMask s' = sigMask s \<union> blockedSignals [Block env signo]"
  using assms(1) le_sig_Block_Inr[OF assms(2)] by (auto simp: ctxInv_def split: monitorPtr.splits)

lemma threadCalls_inv:
  "ctxInv s \<Longrightarrow> threadCalls cs s = Inr s' \<Longrightarrow>
     ctxInv s' \<and> sigMask s' = sigMask s \<union> blockedSignals cs"
proof (induction cs arbitrary: s)
  case Nil then show ?case by simp
next
  case (Cons c cs)
  show ?case
  proof (cases c)
    case (SetEventHandler env signo h)
    with Cons.prems obtain s1 where s1: "le_sig_SetEventHandler env signo h s = Inr s1"
      and rest: "threadCalls cs s1 = Inr s'" by (auto split: sum.splits)
    from setEventHandler_inv[OF Cons.prems(1) s1] Cons.IH[OF _ rest] SetEventHandler
    show ?thesis by simp
  next
    case (Block env signo)
    with Cons.prems obtain s1 where s1: "le_sig_Block env signo s = Inr s1"
      and rest: "threadCalls cs s1 = Inr s'" by (auto split: sum.splits)
    from le_sig_Block_inv[OF Cons.prems(1) s1] Cons.IH[OF _ rest] Block
    show ?thesis by auto
  qed
qed

lemma handledSignals_good:
  "SigMonKey s = Valid m \<Longrightarrow> goodList (handlerObjList m) \<Longrightarrow> handledSignals s = sigNum ` set (handlerObjList m)"
  by (auto simp: handledSignals_def goodList_def)

lemma releaseHandlerObjs_frame:
  "signalFds (releaseHandlerObjs l s) = signalFds s \<and>
   fdMonitors (releaseHandlerObjs l s) = fdMonitors s \<and>
   sigMask (releaseHandlerObjs l s) = sigMask s \<and>
   logMsgs (releaseHandlerObjs l s) = logMsgs s"
  by (induction l arbitrary: s) (simp_all add: le_mem_Release_def)

lemma closeLoop_Inr:
  "closeLoop closes d s = Some (Inr s2) \<Longrightarrow> s2 = s\<lparr>signalFds := (signalFds s)(d := None)\<rparr>"
  by (induction closes d s rule: closeLoop.induct) (auto split: if_splits)

lemma setHandlerIn_keeps:
  assumes "SigMonKey s = Valid m" "fd m \<noteq> - 1" "monitorRef m = Some k" "fdMonitors s k = Some reg"
    "signalFds s (fd m) \<noteq> None"
    and r: "setHandlerIn env signo h m s = Inr s2"
  shows "\<exists>m2. SigMonKey s2 = Valid m2 \<and> fd m2 = fd m \<and> monitorRef m2 = Some k \<and>
              signalFds s2 (fd m) \<noteq> None \<and> fdMonitors s2 k = Some reg"
proof (cases "setHandlerObj signo h m s")
  case None
  with r have "s2 = s" by (simp add: setHandlerIn_def)
  with assms show ?thesis by simp
next
  case (Some p)
  obtain m1 s1 where p: "p = (m1, s1)" by (cases p)
  note fr = setHandlerObj_frame[OF Some[unfolded p]]
  from Some p r have u: "updateSignalFd env m1 s1 = Inr s2" by (simp add: setHandlerIn_def)
  from u fr assms(2-5) show ?thesis
    by (auto simp: updateSignalFd_def signalfd_def split: option.splits if_splits prod.splits)
qed

subsection \<open>Evaluating the examples\<close>

lemmas setHandler_eval = le_sig_SetEventHandler_def reservedSig_def sig_defs exampleEnv_def
  freshThread_def termThread_def setHandlerIn_def setHandlerObj_def le_dls_Queue_def le_dls_Remove_def le_mem_ForceAlloc_def newMonitorObj_def
  updateSignalFd_def signalfd_def le_fdMonitor_Create_def

lemma two_thread_calls:
  "threadCalls [SetEventHandler exampleEnv SIGTERM (Some 1), SetEventHandler exampleEnv 10 (Some 2)]
     freshThread = Inr twoHandlerThread"
  by (simp add: setHandler_eval twoHandlerThread_def insert_commute)

lemma term_handler_calls:
  "threadCalls [Block mainThreadEnv SIGTERM, SetEventHandler exampleEnv SIGTERM (Some 1)] freshThread =
     Inr (termThread\<lparr>sigMask := {SIGTERM}\<rparr>)"
  by (simp add: setHandler_eval le_sig_Block_def pthread_sigmask_BLOCK_def mainThreadEnv_def)

lemma install_term: "le_sig_InstallDefaultTermHandler mainThreadEnv exampleEnv 1 freshThread =
     Inr (termThread\<lparr>sigMask := {SIGTERM}\<rparr>)"
  by (simp add: le_sig_InstallDefaultTermHandler_def setHandler_eval le_sig_Block_def
      pthread_sigmask_BLOCK_def mainThreadEnv_def)

lemma kill_block_calls:
  "threadCalls [Block (mainThreadEnv\<lparr>signalName := ''Killed''\<rparr>) SIGKILL, Block mainThreadEnv SIGTERM]
     freshThread = Inr (freshThread\<lparr>sigMask := {SIGTERM}\<rparr>)"
  by (simp add: le_sig_Block_def pthread_sigmask_BLOCK_def mainThreadEnv_def freshThread_def sig_defs)

subsection \<open>The claims about the registry\<close>

text \<open>
  Claim C1 says that after any sequence of \<open>SetHandler\<close> calls on a thread the signals
  blocked in the thread's kernel mask are exactly the signals that have a handler.
  \<open>le_sig_SetEventHandler\<close> never calls \<open>pthread_sigmask\<close>: blocking is left to
  \<open>le_sig_Block\<close>, as the comment above that function says.  On a fresh thread one
  registration of \<open>SIGTERM\<close> leaves the kernel mask empty while \<open>SIGTERM\<close> has a
  handler.
\<close>

theorem kernel_mask_differs_from_handler_set:
  "le_sig_SetEventHandler exampleEnv SIGTERM (Some 1) freshThread = Inr termThread \<and>
   sigMask termThread = {} \<and> handledSignals termThread = {SIGTERM} \<and>
   sigMask termThread \<noteq> handledSignals termThread"
  by (simp add: setHandler_eval handledSignals_def)

text \<open>
  Claim C1, amended: after any sequence of \<open>le_sig_SetEventHandler\<close> and
  \<open>le_sig_Block\<close> calls that all return, made on a thread that had no monitor object,
  the thread's kernel signal mask is the mask it had before together with the signals the
  \<open>le_sig_Block\<close> calls named, apart from \<open>SIGKILL\<close>, \<open>SIGSTOP\<close> and the signals the C
  library keeps for itself, which \<open>pthread_sigmask\<close> leaves unblocked without an error
  (so calls of \<open>le_sig_SetEventHandler\<close> alone leave the mask as it was), and when the
  thread has a monitor object the signal set of its signalfd descriptor is exactly the set
  of signal numbers that have a handler.
\<close>

theorem signalfd_mask_equals_handler_set:
  assumes "SigMonKey s = Null" and "threadCalls cs s = Inr s'"
  shows "sigMask s' = sigMask s \<union> blockedSignals cs \<and>
         (case SigMonKey s' of
            Null \<Rightarrow> handledSignals s' = {}
          | Valid m \<Rightarrow> signalFds s' (fd m) = Some (handledSignals s')
          | Released \<Rightarrow> False)"
proof -
  have "ctxInv s" using assms(1) by (simp add: ctxInv_def)
  from threadCalls_inv[OF this assms(2)] have i: "ctxInv s'"
    and k: "sigMask s' = sigMask s \<union> blockedSignals cs" by simp_all
  show ?thesis
  proof (cases "SigMonKey s'")
    case Null then show ?thesis using k by (simp add: handledSignals_def)
  next
    case (Valid m)
    with i have "goodList (handlerObjList m)" "signalFds s' (fd m) = Some (sigNum ` set (handlerObjList m))"
      by (simp_all add: ctxInv_def)
    with handledSignals_good[OF Valid] k Valid show ?thesis by simp
  next
    case Released with i show ?thesis by (simp add: ctxInv_def)
  qed
qed

theorem signalfd_mask_equals_handler_set_witness:
  "SigMonKey freshThread = Null \<and>
   threadCalls [SetEventHandler exampleEnv SIGTERM (Some 1), SetEventHandler exampleEnv 10 (Some 2)]
     freshThread = Inr twoHandlerThread \<and>
   sigMask twoHandlerThread = {} \<and>
   signalFds twoHandlerThread 5 = Some (handledSignals twoHandlerThread) \<and>
   handledSignals twoHandlerThread = {SIGTERM, 10} \<and>
   threadCalls [Block mainThreadEnv SIGTERM, SetEventHandler exampleEnv SIGTERM (Some 1)] freshThread =
     Inr (termThread\<lparr>sigMask := {SIGTERM}\<rparr>) \<and>
   sigMask (termThread\<lparr>sigMask := {SIGTERM}\<rparr>) = {SIGTERM} \<and>
   signalFds (termThread\<lparr>sigMask := {SIGTERM}\<rparr>) 5 =
     Some (handledSignals (termThread\<lparr>sigMask := {SIGTERM}\<rparr>)) \<and>
   le_sig_InstallDefaultTermHandler mainThreadEnv exampleEnv 1 freshThread =
     Inr (termThread\<lparr>sigMask := {SIGTERM}\<rparr>) \<and>
   threadCalls [Block (mainThreadEnv\<lparr>signalName := ''Killed''\<rparr>) SIGKILL, Block mainThreadEnv SIGTERM]
     freshThread = Inr (freshThread\<lparr>sigMask := {SIGTERM}\<rparr>) \<and>
   blockedSignals [Block (mainThreadEnv\<lparr>signalName := ''Killed''\<rparr>) SIGKILL, Block mainThreadEnv SIGTERM] =
     {SIGTERM} \<and>
   sigMask (freshThread\<lparr>sigMask := {SIGTERM}\<rparr>) = {SIGTERM} \<and>
   handledSignals (freshThread\<lparr>sigMask := {SIGTERM}\<rparr>) = {}"
proof -
  have a: "SigMonKey freshThread = Null" by (simp add: freshThread_def)
  have b: "blockedSignals [Block (mainThreadEnv\<lparr>signalName := ''Killed''\<rparr>) SIGKILL,
             Block mainThreadEnv SIGTERM] = {SIGTERM}"
    by (simp add: mainThreadEnv_def sig_defs)
  show ?thesis
    using signalfd_mask_equals_handler_set[OF a two_thread_calls]
      signalfd_mask_equals_handler_set[OF a term_handler_calls]
      signalfd_mask_equals_handler_set[OF a kill_block_calls] a b
      two_thread_calls term_handler_calls install_term kill_block_calls
    by (simp add: twoHandlerThread_def termThread_def freshThread_def handledSignals_def insert_commute)
qed

text \<open>
  Claim C2: for every signal number in the reserved set (kill, stop and the six fatal
  signals) and every callback argument, \<open>le_sig_SetEventHandler\<close> ends the process with
  a message that names the signal through \<open>strsignal\<close>, and the thread's state at that
  point is the state the call started in.
\<close>

theorem reserved_signal_is_fatal:
  assumes "signo \<in> {SIGKILL, SIGSTOP} \<union> FatalSignalSet"
  shows "le_sig_SetEventHandler env signo sigEventHandler s =
           Inl (LE_FATAL (''Signal event handler for '' @ strsignal env signo @ '' is not allowed.''), s)"
  using assms by (auto simp: le_sig_SetEventHandler_def reservedSig_def notAllowedMsg_def FatalSignalSet_def)

theorem reserved_signal_is_fatal_witness:
  "SIGKILL \<in> {SIGKILL, SIGSTOP} \<union> FatalSignalSet \<and>
   le_sig_SetEventHandler exampleEnv SIGKILL (Some 1) termThread =
     Inl (LE_FATAL ''Signal event handler for Killed is not allowed.'', termThread)"
  using reserved_signal_is_fatal[of SIGKILL exampleEnv "Some 1" termThread]
  by (simp add: exampleEnv_def strsignalGlibc_def)

text \<open>
  Claim C4 says that calling \<open>le_sig_DeleteAll\<close> twice in a row after a monitor object
  existed is safe.  The first call gives the monitor object back to its pool and leaves
  the thread-local pointer as it is; the second call finds the pointer non-null and reads
  the released object.
\<close>

theorem delete_all_twice_use_after_free:
  "le_sig_SetEventHandler exampleEnv SIGTERM (Some 1) freshThread = Inr termThread \<and>
   le_sig_DeleteAll [(0, 0)] termThread = Some (Inr releasedThread) \<and>
   SigMonKey releasedThread = Released \<and>
   le_sig_DeleteAll [(0, 0)] releasedThread = Some (Inl (UseAfterFree, releasedThread))"
  by (simp add: setHandler_eval le_sig_DeleteAll_def le_mem_Release_def releasedThread_def le_fdMonitor_Delete_def)

text \<open>
  Claim C7: on a thread whose monitor object exists with an open signalfd and a registered
  fd monitor, the call that removes the last handler object returns (when \<open>signalfd\<close>
  succeeds) with the monitor object still there, its list empty, its descriptor open with
  the empty signal set and its fd monitor registered; every call of
  \<open>le_sig_SetEventHandler\<close> that returns leaves the monitor object, the descriptor and
  the registration in place; and \<open>le_sig_DeleteAll\<close>, when it returns, has released the
  monitor object, closed the descriptor and removed the registration.
\<close>

theorem context_survives_last_removal:
  assumes "SigMonKey s = Valid m" and "fd m \<noteq> - 1" and "signalFds s (fd m) = Some S"
    and "monitorRef m = Some k" and "fdMonitors s k = Some reg"
  shows "(handlerObjList m = [h] \<and> \<not> reservedSig (sigNum h) \<and> signalfdOk env \<longrightarrow>
            le_sig_SetEventHandler env (sigNum h) None s =
              Inr (s\<lparr>signalFds := (signalFds s)(fd m \<mapsto> {}),
                     SigMonKey := Valid (m\<lparr>handlerObjList := []\<rparr>)\<rparr>)) \<and>
         (le_sig_SetEventHandler env signo sigEventHandler s = Inr s2 \<longrightarrow>
            (\<exists>m2. SigMonKey s2 = Valid m2 \<and> fd m2 = fd m \<and> monitorRef m2 = Some k \<and>
                  signalFds s2 (fd m) \<noteq> None \<and> fdMonitors s2 k = Some reg)) \<and>
         (le_sig_DeleteAll closes s = Some (Inr s3) \<longrightarrow>
            SigMonKey s3 = Released \<and> signalFds s3 (fd m) = None \<and> fdMonitors s3 k = None)"
proof -
  { assume a: "handlerObjList m = [h] \<and> \<not> reservedSig (sigNum h) \<and> signalfdOk env"
  then have so: "setHandlerObj (sigNum h) None m s = Some (m\<lparr>handlerObjList := []\<rparr>, s)"
    by (simp add: setHandlerObj_def le_dls_Queue_def le_dls_Remove_def le_mem_ForceAlloc_def)
  have "le_sig_SetEventHandler env (sigNum h) None s =
              Inr (s\<lparr>signalFds := (signalFds s)(fd m \<mapsto> {}),
                     SigMonKey := Valid (m\<lparr>handlerObjList := []\<rparr>)\<rparr>)"
    using a so assms
    by (simp add: le_sig_SetEventHandler_def setHandlerIn_def updateSignalFd_def signalfd_def) }
  moreover
  { assume r: "le_sig_SetEventHandler env signo sigEventHandler s = Inr s2"
  with assms(1) have "setHandlerIn env signo sigEventHandler m s = Inr s2"
    by (auto simp: le_sig_SetEventHandler_def split: if_splits)
  from setHandlerIn_keeps[OF assms(1,2,4,5) _ this] assms(3)
  have "\<exists>m2. SigMonKey s2 = Valid m2 \<and> fd m2 = fd m \<and> monitorRef m2 = Some k \<and>
                  signalFds s2 (fd m) \<noteq> None \<and> fdMonitors s2 k = Some reg" by simp }
  moreover
  { assume d: "le_sig_DeleteAll closes s = Some (Inr s3)"
  with assms(1) obtain sc where c: "closeLoop closes (fd m) (le_fdMonitor_Delete (monitorRef m) s) = Some (Inr sc)"
    and s3: "s3 = (releaseHandlerObjs (handlerObjList m) sc)\<lparr>SigMonKey := Released\<rparr>"
    by (auto simp: le_sig_DeleteAll_def le_mem_Release_def split: option.splits sum.splits)
  from closeLoop_Inr[OF c] s3 assms(4)
  have "SigMonKey s3 = Released \<and> signalFds s3 (fd m) = None \<and> fdMonitors s3 k = None"
    by (simp add: le_fdMonitor_Delete_def releaseHandlerObjs_frame) }
  ultimately show ?thesis by blast
qed

theorem context_survives_last_removal_witness:
  "le_sig_SetEventHandler exampleEnv SIGTERM None termThread = Inr emptiedThread \<and>
   SigMonKey emptiedThread = Valid \<lparr>monitorRef = Some 1, fd = 5, handlerObjList = []\<rparr> \<and>
   signalFds emptiedThread 5 = Some {} \<and>
   fdMonitors emptiedThread 1 = Some \<lparr>monFd = 5, monEvents = POLLIN\<rparr> \<and>
   le_sig_DeleteAll [(0, 0)] termThread = Some (Inr releasedThread) \<and>
   SigMonKey releasedThread = Released \<and> signalFds releasedThread 5 = None \<and>
   fdMonitors releasedThread 1 = None"
proof -
  have a: "SigMonKey termThread = Valid \<lparr>monitorRef = Some 1, fd = 5,
                          handlerObjList = [\<lparr>sigNum = SIGTERM, handler = Some 1\<rparr>]\<rparr>"
    by (simp add: termThread_def)
  have b: "fd \<lparr>monitorRef = Some 1, fd = 5,
                          handlerObjList = [\<lparr>sigNum = SIGTERM, handler = Some (1::nat)\<rparr>]\<rparr> \<noteq> - 1" by simp
  have c: "signalFds termThread (fd \<lparr>monitorRef = Some 1, fd = 5,
                          handlerObjList = [\<lparr>sigNum = SIGTERM, handler = Some (1::nat)\<rparr>]\<rparr>) = Some {SIGTERM}"
    by (simp add: termThread_def)
  have d: "monitorRef \<lparr>monitorRef = Some 1, fd = 5,
                          handlerObjList = [\<lparr>sigNum = SIGTERM, handler = Some (1::nat)\<rparr>]\<rparr> = Some 1" by simp
  have e: "fdMonitors termThread 1 = Some \<lparr>monFd = 5, monEvents = POLLIN\<rparr>"
    by (simp add: termThread_def)
  show ?thesis
    using context_survives_last_removal[OF a b c d e, of "\<lparr>sigNum = SIGTERM, handler = Some 1\<rparr>" exampleEnv SIGTERM None emptiedThread "[(0, 0)]" releasedThread]
    by (simp add: setHandler_eval emptiedThread_def releasedThread_def le_sig_DeleteAll_def le_mem_Release_def le_fdMonitor_Delete_def)
qed



text \<open>
  Claim C10: after any sequence of \<open>le_sig_SetEventHandler\<close> calls (with or without
  \<open>le_sig_Block\<close> calls among them) that all return, made on a thread that had no monitor
  object, no two handler objects of the list carry the same
  signal number; and registering a callback for a signal whose handler object is at
  position \<open>i\<close> replaces the callback of that object only: the list keeps its length and
  its order of signal numbers, and no handler object is allocated.
\<close>

theorem one_entry_per_signal:
  assumes "SigMonKey s = Null" and "threadCalls cs s = Inr s1" and "SigMonKey s1 = Valid m"
  shows "distinct (map sigNum (handlerObjList m)) \<and>
         (FindHandlerObj signo (handlerObjList m) = Some i \<and>
          le_sig_SetEventHandler env signo (Some f) s1 = Inr s2 \<longrightarrow>
            (\<exists>m2. SigMonKey s2 = Valid m2 \<and>
                  handlerObjList m2 = (handlerObjList m)[i := \<lparr>sigNum = signo, handler = Some f\<rparr>] \<and>
                  map sigNum (handlerObjList m2) = map sigNum (handlerObjList m) \<and>
                  handlerObjsAllocated s2 = handlerObjsAllocated s1))"
proof -
  have "ctxInv s" using assms(1) by (simp add: ctxInv_def)
  from threadCalls_inv[OF this assms(2)] assms(3)
  have d: "distinct (map sigNum (handlerObjList m))" by (simp add: ctxInv_def goodList_def)
  {
    assume fi: "FindHandlerObj signo (handlerObjList m) = Some i"
      and r: "le_sig_SetEventHandler env signo (Some f) s1 = Inr s2"
    note p = FindHandlerObj_Some[OF fi]
    have e: "(handlerObjList m ! i)\<lparr>handler := Some f\<rparr> = \<lparr>sigNum = signo, handler = Some f\<rparr>"
      using p by (cases "handlerObjList m ! i") simp
    let ?m1 = "m\<lparr>handlerObjList := (handlerObjList m)[i := \<lparr>sigNum = signo, handler = Some f\<rparr>]\<rparr>"
    have so: "setHandlerObj signo (Some f) m s1 = Some (?m1, s1)"
      using fi e by (simp add: setHandlerObj_def le_dls_Queue_def le_dls_Remove_def le_mem_ForceAlloc_def)
    from r assms(3) so have u: "updateSignalFd env ?m1 s1 = Inr s2"
      by (auto simp: le_sig_SetEventHandler_def setHandlerIn_def split: if_splits)
    from u have al: "handlerObjsAllocated s2 = handlerObjsAllocated s1"
      by (auto simp: updateSignalFd_def le_fdMonitor_Create_def signalfd_def split: option.splits if_splits prod.splits)
    from updateSignalFd_Inr[OF u] obtain m2 where m2: "SigMonKey s2 = Valid m2"
      "handlerObjList m2 = (handlerObjList m)[i := \<lparr>sigNum = signo, handler = Some f\<rparr>]" by auto
    have "map sigNum (handlerObjList m2) = map sigNum (handlerObjList m)"
      using map_sigNum_update[of "handlerObjList m" i "Some f"] e m2(2) by simp
    with m2 al have "\<exists>m2. SigMonKey s2 = Valid m2 \<and>
                  handlerObjList m2 = (handlerObjList m)[i := \<lparr>sigNum = signo, handler = Some f\<rparr>] \<and>
                  map sigNum (handlerObjList m2) = map sigNum (handlerObjList m) \<and>
                  handlerObjsAllocated s2 = handlerObjsAllocated s1" by blast
  }
  with d show ?thesis by blast
qed

theorem one_entry_per_signal_witness:
  "SigMonKey freshThread = Null \<and>
   threadCalls [SetEventHandler exampleEnv SIGTERM (Some 1),
                SetEventHandler exampleEnv 10 (Some 2)] freshThread =
     Inr twoHandlerThread \<and>
   SigMonKey twoHandlerThread =
     Valid \<lparr>monitorRef = Some 1, fd = 5,
            handlerObjList = [\<lparr>sigNum = SIGTERM, handler = Some 1\<rparr>,
                              \<lparr>sigNum = 10, handler = Some 2\<rparr>]\<rparr> \<and>
   distinct (map sigNum [\<lparr>sigNum = SIGTERM, handler = Some (1::nat)\<rparr>,
                         \<lparr>sigNum = 10, handler = Some 2\<rparr>]) \<and>
   FindHandlerObj SIGTERM [\<lparr>sigNum = SIGTERM, handler = Some (1::nat)\<rparr>,
                           \<lparr>sigNum = 10, handler = Some 2\<rparr>] = Some 0 \<and>
   le_sig_SetEventHandler exampleEnv SIGTERM (Some 3) twoHandlerThread = Inr reRegisteredThread \<and>
   SigMonKey reRegisteredThread =
     Valid \<lparr>monitorRef = Some 1, fd = 5,
            handlerObjList = [\<lparr>sigNum = SIGTERM, handler = Some 3\<rparr>,
                              \<lparr>sigNum = 10, handler = Some 2\<rparr>]\<rparr> \<and>
   handlerObjsAllocated reRegisteredThread = handlerObjsAllocated twoHandlerThread"
proof -
  have a: "SigMonKey freshThread = Null" by (simp add: freshThread_def)
  have c: "SigMonKey twoHandlerThread =
     Valid \<lparr>monitorRef = Some 1, fd = 5,
            handlerObjList = [\<lparr>sigNum = SIGTERM, handler = Some 1\<rparr>,
                              \<lparr>sigNum = 10, handler = Some 2\<rparr>]\<rparr>"
    by (simp add: twoHandlerThread_def)
  have r: "le_sig_SetEventHandler exampleEnv SIGTERM (Some 3) twoHandlerThread =
             Inr reRegisteredThread"
    by (simp add: setHandler_eval twoHandlerThread_def reRegisteredThread_def insert_commute)
  show ?thesis
    using one_entry_per_signal[OF a two_thread_calls c, of SIGTERM 0 exampleEnv 3 reRegisteredThread] a two_thread_calls c r
    by (simp add: sig_defs reRegisteredThread_def twoHandlerThread_def)
qed

section \<open>Properties of the event dispatcher\<close>

lemma noteCall_term: "noteCall 1 15 termThread = Inr (termThread\<lparr>logMsgs := [''callback 1 got 15'']\<rparr>)"
  by (simp add: noteCall_def termThread_def showNat.simps showInt_def digitChar_def)

text \<open>
  Claim C5: one iteration of the drain loop on a thread that has a monitor object.  A read
  that returns a record looks the signal number up in the list of this thread's monitor
  object; when a handler object with a callback is found the callback runs at once, with
  the signal number, and the loop goes on in the state the callback left (or the process
  ends as the callback ended it); when none is found the record is dropped and the loop
  goes on.  A read that returns 0, or fails with \<open>EAGAIN\<close>, ends the loop and the
  dispatcher returns.  A read that fails with \<open>EINTR\<close> is tried again.  A read that
  fails with any other \<open>errno\<close> ends the process through \<open>LE_FATAL\<close>.  The loop is what
  \<open>OurSigHandler\<close> does when the event loop reports the descriptor readable.
\<close>

theorem drain_iteration_cases:
  assumes "SigMonKey s = Valid m"
  shows
   "OurSigHandler run (r # rs) POLLIN s = drain run (r # rs) s \<and>
    (0 < numBytesRead r \<and> FindHandlerObj (sint (ssi_signo r)) (handlerObjList m) = Some i \<and>
       handler (handlerObjList m ! i) = Some f \<longrightarrow>
         drain run (r # rs) s =
           (case run f (sint (ssi_signo r)) s of
              Inl e \<Rightarrow> Some (Inl e)
            | Inr s1 \<Rightarrow> drain run rs s1)) \<and>
    (0 < numBytesRead r \<and> FindHandlerObj (sint (ssi_signo r)) (handlerObjList m) = None \<longrightarrow>
         drain run (r # rs) s = drain run rs s) \<and>
    (numBytesRead r = 0 \<or> (numBytesRead r = - 1 \<and> readErrno r = EAGAIN) \<longrightarrow>
         drain run (r # rs) s = Some (Inr s)) \<and>
    (numBytesRead r = - 1 \<and> readErrno r = EINTR \<longrightarrow>
         drain run (r # rs) s = drain run rs s) \<and>
    (numBytesRead r = - 1 \<and> readErrno r \<noteq> EINTR \<and> readErrno r \<noteq> EAGAIN \<longrightarrow>
         drain run (r # rs) s = Some (Inl (LE_FATAL ''Could not read from signal fd: %m'', s)))"
proof (intro conjI impI)
  show "OurSigHandler run (r # rs) POLLIN s = drain run (r # rs) s"
    by (simp add: OurSigHandler_def POLLIN_def)
next
  assume "0 < numBytesRead r \<and> FindHandlerObj (sint (ssi_signo r)) (handlerObjList m) = Some i \<and>
       handler (handlerObjList m ! i) = Some f"
  with assms show "drain run (r # rs) s =
           (case run f (sint (ssi_signo r)) s of
              Inl e \<Rightarrow> Some (Inl e)
            | Inr s1 \<Rightarrow> drain run rs s1)" by simp
next
  assume "0 < numBytesRead r \<and> FindHandlerObj (sint (ssi_signo r)) (handlerObjList m) = None"
  with assms show "drain run (r # rs) s = drain run rs s" by simp
next
  assume "numBytesRead r = 0 \<or> (numBytesRead r = - 1 \<and> readErrno r = EAGAIN)"
  then show "drain run (r # rs) s = Some (Inr s)" by auto
next
  assume "numBytesRead r = - 1 \<and> readErrno r = EINTR"
  then show "drain run (r # rs) s = drain run rs s" by (simp add: EINTR_def EAGAIN_def)
next
  assume "numBytesRead r = - 1 \<and> readErrno r \<noteq> EINTR \<and> readErrno r \<noteq> EAGAIN"
  then show "drain run (r # rs) s = Some (Inl (LE_FATAL ''Could not read from signal fd: %m'', s))"
    by simp
qed


theorem drain_iteration_cases_witness:
  "drain noteCall [gotSignal 15, readFails EAGAIN] termThread =
     Some (Inr (termThread\<lparr>logMsgs := [''callback 1 got 15'']\<rparr>)) \<and>
   drain noteCall [gotSignal 10, readFails EAGAIN] termThread = Some (Inr termThread) \<and>
   drain noteCall [readFails EAGAIN] termThread = Some (Inr termThread) \<and>
   drain noteCall [readFails EINTR, readFails EAGAIN] termThread = Some (Inr termThread) \<and>
   drain noteCall [readFails EBADF] termThread =
     Some (Inl (LE_FATAL ''Could not read from signal fd: %m'', termThread))"
proof -
  let ?m = "\<lparr>monitorRef = Some 1, fd = 5,
             handlerObjList = [\<lparr>sigNum = SIGTERM, handler = Some (1::nat)\<rparr>]\<rparr>"
  have a: "SigMonKey termThread = Valid ?m" by (simp add: termThread_def)
  have b: "SigMonKey (termThread\<lparr>logMsgs := [''callback 1 got 15'']\<rparr>) = Valid ?m"
    by (simp add: termThread_def)
  note again = drain_iteration_cases[OF a, where r="readFails EAGAIN" and i=0 and f=1 and run=noteCall and rs="[]"]
  note again' = drain_iteration_cases[OF b, where r="readFails EAGAIN" and i=0 and f=1 and run=noteCall and rs="[]"]
  note found = drain_iteration_cases[OF a, where r="gotSignal 15" and i=0 and f=1 and run=noteCall and rs="[readFails EAGAIN]"]
  note dropped = drain_iteration_cases[OF a, where r="gotSignal 10" and i=0 and f=1 and run=noteCall and rs="[readFails EAGAIN]"]
  note intr = drain_iteration_cases[OF a, where r="readFails EINTR" and i=0 and f=1 and run=noteCall and rs="[readFails EAGAIN]"]
  note bad = drain_iteration_cases[OF a, where r="readFails EBADF" and i=0 and f=1 and run=noteCall and rs="[]"]
  have w1: "drain noteCall [readFails EAGAIN] termThread = Some (Inr termThread)"
    using again by (simp add: readFails_def)
  have w1b: "drain noteCall [readFails EAGAIN] (termThread\<lparr>logMsgs := [''callback 1 got 15'']\<rparr>) =
      Some (Inr (termThread\<lparr>logMsgs := [''callback 1 got 15'']\<rparr>))"
    using again' by (simp add: readFails_def)
  have w2: "drain noteCall [gotSignal 15, readFails EAGAIN] termThread =
     Some (Inr (termThread\<lparr>logMsgs := [''callback 1 got 15'']\<rparr>))"
    using found w1b noteCall_term by (simp add: gotSignal_def sig_defs)
  have w3: "drain noteCall [gotSignal 10, readFails EAGAIN] termThread = Some (Inr termThread)"
    using dropped w1 by (simp add: gotSignal_def sig_defs)
  have w4: "drain noteCall [readFails EINTR, readFails EAGAIN] termThread = Some (Inr termThread)"
    using intr w1 by (simp add: readFails_def)
  have w5: "drain noteCall [readFails EBADF] termThread =
     Some (Inl (LE_FATAL ''Could not read from signal fd: %m'', termThread))"
    using bad by (simp add: readFails_def EBADF_def EINTR_def EAGAIN_def)
  from w1 w2 w3 w4 w5 show ?thesis by simp
qed

section \<open>Properties of the installation\<close>

lemma installFor_other:
  "signo \<noteq> k \<Longrightarrow> sigActions (installFor env signo name p) k = sigActions p k"
  by (simp add: installFor_def)

text \<open>
  Claim C3 says that the installation, when it is not disabled, installs the crash handler
  for every fatal signal: segmentation fault, illegal instruction, bus error,
  floating-point exception, abort and trap.  The function calls \<open>sigaction\<close> for five
  signals; \<open>SIGTRAP\<close> is not among them, so its disposition is what it was, whatever the
  environment answers.  For a process at start, with nothing disabled and every
  \<open>sigaction\<close> succeeding, the handler is installed (with \<open>SA_RESETHAND\<close>) for exactly
  the five other signals.
\<close>

theorem trap_handler_not_installed:
  "sigActions (le_sig_InstallShowStackHandler env p) SIGTRAP = sigActions p SIGTRAP \<and>
   SIGTRAP \<in> FatalSignalSet \<and>
   dom (sigActions (le_sig_InstallShowStackHandler plainInstallEnv startProcess)) =
     {SIGSEGV, SIGBUS, SIGILL, SIGFPE, SIGABRT} \<and>
   sigActions (le_sig_InstallShowStackHandler plainInstallEnv startProcess) SIGTRAP = None \<and>
   sigActions (le_sig_InstallShowStackHandler plainInstallEnv startProcess) SIGSEGV =
     Some \<lparr>sa_sigaction = ''ShowStackSignalHandler'',
           sa_flags = {SA_NOCLDSTOP, SA_SIGINFO, SA_RESETHAND}\<rparr>"
proof -
  have g: "sigActions (le_sig_InstallShowStackHandler env p) SIGTRAP = sigActions p SIGTRAP"
    by (simp add: le_sig_InstallShowStackHandler_def Let_def installFor_other sig_defs
        split: option.splits)
  have e: "le_sig_InstallShowStackHandler plainInstallEnv startProcess =
      startProcess\<lparr>sigActions := [SIGSEGV \<mapsto> showStackAction, SIGBUS \<mapsto> showStackAction,
         SIGILL \<mapsto> showStackAction, SIGFPE \<mapsto> showStackAction, SIGABRT \<mapsto> showStackAction]\<rparr>"
    by (simp add: le_sig_InstallShowStackHandler_def plainInstallEnv_def startProcess_def
        installFor_def Let_def)
  show ?thesis
    unfolding e using g
    by (auto simp: sig_defs FatalSignalSet_def showStackAction_def startProcess_def)
qed

section \<open>Properties of the crash report\<close>

subsection \<open>Every step keeps to the write policy\<close>

lemma allWritten_append [simp]: "allWritten (a @ b) \<longleftrightarrow> allWritten a \<and> allWritten b"
  by (simp add: allWritten_def)

lemma allWritten_Nil [simp]: "allWritten []"
  by (simp add: allWritten_def)

lemma allWritten_Cons [simp]: "allWritten (e # t) \<longleftrightarrow> \<not> failedWrite e \<and> allWritten t"
  by (simp add: allWritten_def)

lemma doWrite_ok:
  "doWrite env buf t = (t1, True) \<Longrightarrow> allWritten t \<Longrightarrow> allWritten t1"
  by (auto simp: doWrite_def Let_def)

lemma doWrite_failed:
  "doWrite env buf t = (t1, False) \<Longrightarrow> \<exists>e. failedWrite e \<and> t1 = t @ [e]"
  by (auto simp: doWrite_def Let_def)

lemma endsProperlyI1: "allWritten pre \<Longrightarrow> failedWrite e \<Longrightarrow> endsProperly signo (pre @ [e, Raise signo])"
  unfolding endsProperly_def by blast

lemma endsProperlyI2: "allWritten pre \<Longrightarrow> failedWrite e \<Longrightarrow> endsProperly signo (pre @ [e, Close, Raise signo])"
  unfolding endsProperly_def by blast

lemma endsProperlyI0: "allWritten pre \<Longrightarrow> endsProperly signo (pre @ [Raise signo])"
  unfolding endsProperly_def by blast

lemma CHECK_WRITE_ok: "allWritten t \<Longrightarrow> okProgress signo (CHECK_WRITE env signo buf t)"
proof -
  assume a: "allWritten t"
  obtain t1 ok where d: "doWrite env buf t = (t1, ok)" by (cases "doWrite env buf t")
  show ?thesis
  proof (cases ok)
    case True
    with d doWrite_ok[of env buf t t1] a show ?thesis by (simp add: CHECK_WRITE_def)
  next
    case False
    with d doWrite_failed[of env buf t t1] obtain e where "failedWrite e" "t1 = t @ [e]" by auto
    with a endsProperlyI1[of t e signo] d False show ?thesis by (simp add: CHECK_WRITE_def)
  qed
qed

lemma stepOk_CHECK_WRITE: "stepOk signo (CHECK_WRITE env signo buf)"
  by (simp add: stepOk_def CHECK_WRITE_ok)

lemma runSteps_ok:
  "\<forall>f \<in> set fs. stepOk signo f \<Longrightarrow> allWritten t \<Longrightarrow> okProgress signo (runSteps fs t)"
proof (induction fs arbitrary: t)
  case Nil then show ?case by simp
next
  case (Cons f fs)
  from Cons.prems have o: "okProgress signo (f t)" by (simp add: stepOk_def)
  show ?case
  proof (cases "f t")
    case (Going t1)
    with o Cons show ?thesis by simp
  qed (use o in simp_all)
qed

lemma stepOk_runSteps: "\<forall>f \<in> set fs. stepOk signo f \<Longrightarrow> stepOk signo (runSteps fs)"
  by (simp add: stepOk_def runSteps_ok)

lemma cmdlineLoop_ok: "allWritten t \<Longrightarrow> okProgress signo (cmdlineLoop env signo answers t)"
proof (induction env signo answers t rule: cmdlineLoop.induct)
  case (3 env signo bs answers t)
  let ?buf = "map (\<lambda>c. if c = CHR 0x00 then CHR '' '' else c) (take 256 bs)"
  obtain t1 ok where d: "doWrite env ?buf t = (t1, ok)" by (cases "doWrite env ?buf t")
  show ?case
  proof (cases "take 256 bs = []")
    case True with 3 show ?thesis by simp
  next
    case ne: False
    show ?thesis
    proof (cases ok)
      case True
      with d doWrite_ok[of env ?buf t t1] 3 ne show ?thesis by simp
    next
      case False
      with d doWrite_failed[of env ?buf t t1] obtain e where "failedWrite e" "t1 = t @ [e]" by auto
      with 3 endsProperlyI2[of t e signo] d False ne show ?thesis by simp
    qed
  qed
qed simp_all


lemma mapsLoop_ok: "allWritten t \<Longrightarrow> okProgress signo (mapsLoop env signo answers line t)"
proof (induction env signo answers line t rule: mapsLoop.induct)
  case (3 env signo bs answers line t)
  show ?case
  proof (cases "take 1 bs")
    case Nil with 3 show ?thesis by simp
  next
    case (Cons c cs)
    show ?thesis
    proof (cases "c = CHR 0x0A")
      case nl: True
      obtain t1 ok where d: "doWrite env (line @ [c]) t = (t1, ok)"
        by (cases "doWrite env (line @ [c]) t")
      show ?thesis
      proof (cases ok)
        case True
        with d doWrite_ok[of env "line @ [c]" t t1] 3 Cons nl show ?thesis by simp
      next
        case False
        with d doWrite_failed[of env "line @ [c]" t t1] obtain e where "failedWrite e" "t1 = t @ [e]"
          by auto
        with 3 endsProperlyI2[of t e signo] d False Cons nl show ?thesis by simp
      qed
    next
      case False
      with 3 Cons show ?thesis by simp
    qed
  qed
qed simp_all

lemma backtraceLines_ok:
  "allWritten t \<Longrightarrow> okProgress signo (backtraceLines env signo k addrs t)"
proof (induction addrs arbitrary: k t)
  case Nil then show ?case by simp
next
  case (Cons a addrs)
  let ?w = "CHECK_WRITE env signo (snprintf256 (''#'' @ showInt (int k) @ '' : '' @ showPtr a @ nl)) t"
  from Cons.prems have o: "okProgress signo ?w" by (rule CHECK_WRITE_ok)
  show ?case
  proof (cases ?w)
    case (Going t1)
    with o Cons.IH[of t1 "Suc k"] show ?thesis by simp
  qed (use o in simp_all)
qed

lemma armFrames_ok:
  "allWritten t \<Longrightarrow> okProgress signo (armFrames fuel env signo regs base mem addr frame t)"
proof (induction fuel arbitrary: addr frame t)
  case 0 then show ?case by simp
next
  case (Suc fuel)
  let ?w = "CHECK_WRITE env signo
             (snprintf256 ((if addr = arm_pc regs then ''PC'' else ''LR'') @ '' at '' @
                           showHex08 addr @ nl)) t"
  from Suc.prems have o: "okProgress signo ?w" by (rule CHECK_WRITE_ok)
  show ?case
  proof (cases ?w)
    case (Going t1)
    with o have a1: "allWritten t1" by simp
    from Going a1 Suc.IH[OF a1] show ?thesis by simp
  qed (use o in simp_all)
qed

lemma stackLines_ok:
  "allWritten t \<Longrightarrow> okProgress signo (stackLines env signo mem n frame t)"
proof (induction n arbitrary: frame t)
  case 0 then show ?case by simp
next
  case (Suc n)
  let ?w = "CHECK_WRITE env signo
             (snprintf256 (showHex08 frame @ '':'' @
                           concat (map (\<lambda>j. '' '' @ showHex08 (mem (frame + 4 * of_nat j)))
                                       [0..<8]) @ nl)) t"
  from Suc.prems have o: "okProgress signo ?w" by (rule CHECK_WRITE_ok)
  show ?case
  proof (cases ?w)
    case (Going t1)
    with o have a1: "allWritten t1" by simp
    from Going Suc.IH[OF a1] show ?thesis by simp
  qed (use o in simp_all)
qed

lemma stepOk_showProcess: "stepOk signo (showProcess env signo)"
  by (simp add: showProcess_def stepOk_CHECK_WRITE)

lemma stepOk_showSignal: "stepOk signo (showSignal env signo)"
  by (simp add: showSignal_def stepOk_CHECK_WRITE)

lemma stepOk_explainSignal: "stepOk signo (explainSignal env signo)"
  by (simp add: explainSignal_def stepOk_CHECK_WRITE)

lemma stepOk_dumpVersion: "stepOk signo (dumpVersion env signo)"
  unfolding dumpVersion_def
proof (rule stepOk_runSteps, simp add: stepOk_CHECK_WRITE, unfold stepOk_def, intro allI impI)
  fix t assume a: "allWritten t"
  show "okProgress signo
          (case versionFile env of None \<Rightarrow> Going (t @ [Open versionPath False])
           | Some answers \<Rightarrow>
               case readOnce 256 answers of
               (rc, bytes) \<Rightarrow>
                 if 0 < rc
                 then runSteps [CHECK_WRITE env signo bytes, CHECK_WRITE env signo nl]
                       (t @ [Open versionPath True, Close])
                 else CHECK_WRITE env signo (snprintf256 (''Cannot read legato version'' @ nl))
                       (t @ [Open versionPath True, Close]))"
  proof (cases "versionFile env")
    case None with a show ?thesis by simp
  next
    case (Some answers)
    obtain rc bytes where r: "readOnce 256 answers = (rc, bytes)" by (cases "readOnce 256 answers")
    have b: "allWritten (t @ [Open versionPath True, Close])" using a by simp
    show ?thesis
      using Some r CHECK_WRITE_ok[OF b]
        runSteps_ok[of "[CHECK_WRITE env signo bytes, CHECK_WRITE env signo nl]" signo, OF _ b]
      by (simp add: stepOk_CHECK_WRITE)
  qed
qed

lemma stepOk_dumpCmdline: "stepOk signo (dumpCmdline env signo)"
  unfolding dumpCmdline_def
proof (rule stepOk_runSteps, simp add: stepOk_CHECK_WRITE, unfold stepOk_def, intro allI impI)
  fix t assume a: "allWritten t"
  let ?path = "snprintf256 (''/proc/'' @ showInt (crashPid env) @ ''/cmdline'')"
  show "okProgress signo
          (case cmdlineFile env of None \<Rightarrow> Going (t @ [Open ?path False])
           | Some answers \<Rightarrow>
               runSteps [cmdlineLoop env signo answers, \<lambda>t1. CHECK_WRITE env signo nl (t1 @ [Close])]
                (t @ [Open ?path True]))"
  proof (cases "cmdlineFile env")
    case None with a show ?thesis by simp
  next
    case (Some answers)
    have b: "allWritten (t @ [Open ?path True])" using a by simp
    have s1: "stepOk signo (cmdlineLoop env signo answers)"
      by (simp add: stepOk_def cmdlineLoop_ok)
    have s2: "stepOk signo (\<lambda>t1. CHECK_WRITE env signo nl (t1 @ [Close]))"
      by (simp add: stepOk_def CHECK_WRITE_ok)
    show ?thesis using Some runSteps_ok[OF _ b, of "[cmdlineLoop env signo answers, \<lambda>t1. CHECK_WRITE env signo nl (t1 @ [Close])]" signo] s1 s2
      by simp
  qed
qed

lemma stepOk_dumpMaps: "stepOk signo (dumpMaps env signo)"
  unfolding dumpMaps_def
proof (rule stepOk_runSteps, simp add: stepOk_CHECK_WRITE, unfold stepOk_def, intro allI impI)
  fix t assume a: "allWritten t"
  let ?path = "snprintf256 (''/proc/'' @ showInt (crashPid env) @ ''/maps'')"
  show "okProgress signo
          (case mapsFile env of None \<Rightarrow> Going (t @ [Open ?path False])
           | Some answers \<Rightarrow>
               runSteps [mapsLoop env signo answers [], \<lambda>t1. Going (t1 @ [Close])]
                (t @ [Open ?path True]))"
  proof (cases "mapsFile env")
    case None with a show ?thesis by simp
  next
    case (Some answers)
    have b: "allWritten (t @ [Open ?path True])" using a by simp
    have s1: "stepOk signo (mapsLoop env signo answers [])"
      by (simp add: stepOk_def mapsLoop_ok)
    have s2: "stepOk signo (\<lambda>t1. Going (t1 @ [Close]))"
      by (simp add: stepOk_def)
    show ?thesis using Some runSteps_ok[OF _ b, of "[mapsLoop env signo answers [], \<lambda>t1. Going (t1 @ [Close])]" signo] s1 s2
      by simp
  qed
qed

lemma stepOk_armRegisters: "stepOk signo (armRegisters env signo regs)"
  unfolding armRegisters_def by (rule stepOk_runSteps) (simp add: stepOk_CHECK_WRITE)

lemma stepOk_dumpBacktrace: "stepOk signo (dumpBacktrace fuel env signo)"
  unfolding dumpBacktrace_def
proof (rule stepOk_runSteps, simp add: stepOk_CHECK_WRITE, unfold stepOk_def, intro allI impI)
  fix t assume a: "allWritten t"
  show "okProgress signo
          (case archCtx env of
             Arm regs base mem \<Rightarrow>
               runSteps [armFrames fuel env signo regs base mem (arm_pc regs) base,
                         armRegisters env signo regs,
                         stackLines env signo mem 32 (arm_sp regs)] t
           | Generic pc addrs \<Rightarrow> backtraceLines env signo 0 (drop 2 (take 12 addrs)) t)"
  proof (cases "archCtx env")
    case (Arm regs base mem)
    have "\<forall>f \<in> set [armFrames fuel env signo regs base mem (arm_pc regs) base,
                         armRegisters env signo regs,
                         stackLines env signo mem 32 (arm_sp regs)]. stepOk signo f"
      using stepOk_armRegisters by (simp add: stepOk_def armFrames_ok stackLines_ok)
    from runSteps_ok[OF this a] Arm show ?thesis by simp
  next
    case (Generic pc addrs)
    with backtraceLines_ok[OF a] show ?thesis by simp
  qed
qed

lemma stepOk_finish: "stepOk signo (finish env port signo)"
proof -
  have "okProgress signo (finish env port signo t)" if a: "allWritten t" for t
  proof -
    let ?ex = "Exec [''gdbserver'', take 9 ('':'' @ showNat (unat port)),
                                   ''--attach'', take 9 (showInt (crashPid env))]"
    have 1: "endsProperly signo (t @ [Raise signo])" using endsProperlyI0[OF a] .
    have 2: "endsProperly signo ((t @ [Fork (forkRet env), Wait]) @ [Raise signo])"
      by (rule endsProperlyI0) (use a in simp)
    have 3: "endsProperly signo ((t @ [Fork (forkRet env), ?ex, Wait]) @ [Raise signo])"
      by (rule endsProperlyI0) (use a in simp)
    from 1 2 3 a show ?thesis by (auto simp: finish_def)
  qed
  then show ?thesis by (simp add: stepOk_def)
qed

lemma handler_ok: "okProgress signo (ShowStackSignalHandler fuel env port signo)"
  unfolding ShowStackSignalHandler_def
  by (rule runSteps_ok)
     (simp_all add: stepOk_showProcess stepOk_showSignal stepOk_explainSignal stepOk_dumpVersion
        stepOk_dumpCmdline stepOk_dumpMaps stepOk_dumpBacktrace stepOk_CHECK_WRITE stepOk_finish)

lemma first_failed_write:
  assumes "allWritten pre" "failedWrite e" "allWritten tail"
    and "pre @ e # tail = pre' @ e' # post" "failedWrite e'"
  shows "pre' = pre \<and> e' = e \<and> post = tail"
  using assms
proof (induction pre arbitrary: pre')
  case Nil
  show ?case
  proof (cases pre')
    case Nil with Nil.prems show ?thesis by simp
  next
    case (Cons x xs)
    with Nil.prems have "tail = xs @ e' # post" by simp
    with Nil.prems(3,5) show ?thesis by simp
  qed
next
  case (Cons a pre)
  show ?case
  proof (cases pre')
    case Nil
    with Cons.prems show ?thesis by simp
  next
    case (Cons x xs)
    with Cons.prems Cons.IH[of xs] show ?thesis by simp
  qed
qed

subsection \<open>Evaluating the examples\<close>

lemmas crash_eval = ShowStackSignalHandler_def showProcess_def showSignal_def explainSignal_def
  explainText_def dumpVersion_def dumpCmdline_def dumpMaps_def dumpBacktrace_def finish_def
  CHECK_WRITE_def doWrite_def writesDone_def snprintf256_def showInt_def showNat.simps
  showPtr_def showHex.simps digitChar_def pcPtr_def versionPath_def sig_defs Let_def

lemma broken_output_run:
  "ShowStackSignalHandler 0 brokenOutputEnv 0 SIGSEGV =
     Returned [Write (''PROCESS: 1234 ,TID 1234'' @ nl) 24,
               Write (''SIGNAL: 11, ADDR (nil), AT 0x1000'' @ nl) (- 1), Raise SIGSEGV]"
  by (simp add: crash_eval brokenOutputEnv_def noFilesEnv_def)

lemma broken_maps_run:
  "ShowStackSignalHandler 0 brokenMapsEnv 0 SIGSEGV =
     Returned [Write (''PROCESS: 1234 ,TID 1234'' @ nl) 24,
               Write (''SIGNAL: 11, ADDR (nil), AT 0x1000'' @ nl) 34,
               Write (''ILLEGAL ADDRESS (nil)'' @ nl) 22,
               Write (''LEGATO VERSION'' @ nl) 15, Open versionPath False,
               Write (''PROCESS COMMAND LINE'' @ nl) 21, Open ''/proc/1234/cmdline'' False,
               Write (''PROCESS MAP'' @ nl) 12, Open ''/proc/1234/maps'' True,
               Write (''rwx'' @ nl) 2, Close, Raise SIGSEGV]"
  by (simp add: crash_eval brokenMapsEnv_def noFilesEnv_def)

lemma no_files_run:
  "ShowStackSignalHandler 0 noFilesEnv 0 SIGSEGV =
     Returned [Write (''PROCESS: 1234 ,TID 1234'' @ nl) 24,
               Write (''SIGNAL: 11, ADDR (nil), AT 0x1000'' @ nl) 34,
               Write (''ILLEGAL ADDRESS (nil)'' @ nl) 22,
               Write (''LEGATO VERSION'' @ nl) 15, Open versionPath False,
               Write (''PROCESS COMMAND LINE'' @ nl) 21, Open ''/proc/1234/cmdline'' False,
               Write (''PROCESS MAP'' @ nl) 12, Open ''/proc/1234/maps'' False,
               Write (''BACKTRACE'' @ nl) 10, Write (''DONE'' @ nl) 5, Raise SIGSEGV]"
  by (simp add: crash_eval noFilesEnv_def)

lemma empty_version_run:
  "ShowStackSignalHandler 0 emptyVersionEnv 0 SIGSEGV =
     Returned [Write (''PROCESS: 1234 ,TID 1234'' @ nl) 24,
               Write (''SIGNAL: 11, ADDR (nil), AT 0x1000'' @ nl) 34,
               Write (''ILLEGAL ADDRESS (nil)'' @ nl) 22,
               Write (''LEGATO VERSION'' @ nl) 15, Open versionPath True, Close,
               Write (''Cannot read legato version'' @ nl) 27,
               Write (''PROCESS COMMAND LINE'' @ nl) 21, Open ''/proc/1234/cmdline'' False,
               Write (''PROCESS MAP'' @ nl) 12, Open ''/proc/1234/maps'' False,
               Write (''BACKTRACE'' @ nl) 10, Write (''DONE'' @ nl) 5, Raise SIGSEGV]"
  by (simp add: crash_eval emptyVersionEnv_def noFilesEnv_def)

subsection \<open>When every write succeeds\<close>

lemma CHECK_WRITE_succeeds:
  "writesSucceed env \<Longrightarrow> CHECK_WRITE env signo buf t = Going (t @ [Write buf (int (length buf))])"
  by (simp add: writesSucceed_def CHECK_WRITE_def doWrite_def)

lemma doWrite_succeeds:
  "writesSucceed env \<Longrightarrow> doWrite env buf t = (t @ [Write buf (int (length buf))], True)"
  by (simp add: writesSucceed_def doWrite_def)

lemma cmdlineLoop_succeeds:
  "writesSucceed env \<Longrightarrow> \<exists>evs. cmdlineLoop env signo answers t = Going (t @ evs)"
proof (induction env signo answers t rule: cmdlineLoop.induct)
  case (3 env signo bs answers t)
  let ?buf = "map (\<lambda>c. if c = CHR 0x00 then CHR '' '' else c) (take 256 bs)"
  show ?case
  proof (cases "take 256 bs = []")
    case True then show ?thesis by simp
  next
    case False
    from 3(1)[OF False doWrite_succeeds[OF 3(2), symmetric] _ 3(2)]
    obtain evs where "cmdlineLoop env signo answers (t @ [Write ?buf (int (length ?buf))]) =
        Going ((t @ [Write ?buf (int (length ?buf))]) @ evs)" by auto
    with False doWrite_succeeds[OF 3(2), of ?buf t] show ?thesis by simp
  qed
qed simp_all

lemma mapsLoop_succeeds:
  "writesSucceed env \<Longrightarrow> \<exists>evs. mapsLoop env signo answers line t = Going (t @ evs)"
proof (induction answers arbitrary: line t)
  case Nil then show ?case by simp
next
  case (Cons a answers)
  show ?case
  proof (cases a)
    case RdError then show ?thesis by simp
  next
    case (RdBytes bs)
    show ?thesis
    proof (cases "take 1 bs")
      case Nil with RdBytes show ?thesis by simp
    next
      case (Cons c cs)
      from Cons.IH[OF Cons.prems, of "[]" "t @ [Write (line @ [c]) (int (length (line @ [c])))]"]
      obtain e1 where e1: "mapsLoop env signo answers [] (t @ [Write (line @ [c]) (int (length (line @ [c])))]) =
          Going ((t @ [Write (line @ [c]) (int (length (line @ [c])))]) @ e1)" by auto
      from Cons.IH[OF Cons.prems, of "line @ [c]" t]
      obtain e2 where e2: "mapsLoop env signo answers (line @ [c]) t = Going (t @ e2)" by auto
      from Cons.IH[OF Cons.prems, of "[]" t]
      obtain e3 where e3: "mapsLoop env signo answers [] t = Going (t @ e3)" by auto
      show ?thesis
        using RdBytes Cons e1 e2 e3 doWrite_succeeds[OF Cons.prems, of "line @ [c]" t]
        by (cases "c = CHR 0x0A") auto
    qed
  qed
qed

lemma backtraceLines_succeeds:
  "writesSucceed env \<Longrightarrow> \<exists>evs. backtraceLines env signo k addrs t = Going (t @ evs)"
proof (induction addrs arbitrary: k t)
  case Nil then show ?case by simp
next
  case (Cons a addrs)
  let ?b = "snprintf256 (''#'' @ showInt (int k) @ '' : '' @ showPtr a @ nl)"
  from Cons.IH[OF Cons.prems, of "Suc k" "t @ [Write ?b (int (length ?b))]"]
  obtain evs where "backtraceLines env signo (Suc k) addrs (t @ [Write ?b (int (length ?b))]) =
     Going ((t @ [Write ?b (int (length ?b))]) @ evs)" by auto
  then show ?case using CHECK_WRITE_succeeds[OF Cons.prems, of signo ?b t] by simp
qed

lemma progress_case_id [simp]:
  "(case p of Going x \<Rightarrow> Going x | Returned x \<Rightarrow> Returned x
      | Spinning x \<Rightarrow> Spinning x | Replaced x \<Rightarrow> Replaced x) = p"
  by (cases p) simp_all

lemma progress_case_id_runSteps [simp]:
  "(case p of Going x \<Rightarrow> runSteps [] x | Returned x \<Rightarrow> Returned x
      | Spinning x \<Rightarrow> Spinning x | Replaced x \<Rightarrow> Replaced x) = p"
  by (cases p) simp_all

lemma runSteps_single [simp]: "runSteps [f] t = f t"
  by (cases "f t") simp_all

lemma armFrames_succeeds:
  "writesSucceed env \<Longrightarrow>
     \<exists>evs. armFrames fuel env signo regs base mem addr frame t = Going (t @ evs) \<or>
           armFrames fuel env signo regs base mem addr frame t = Spinning (t @ evs)"
proof (induction fuel arbitrary: addr frame t)
  case 0
  have "armFrames 0 env signo regs base mem addr frame t = Spinning (t @ [])" by simp
  then show ?case by blast
next
  case (Suc fuel)
  let ?b = "snprintf256 ((if addr = arm_pc regs then ''PC'' else ''LR'') @ '' at '' @
                           showHex08 addr @ nl)"
  let ?t1 = "t @ [Write ?b (int (length ?b))]"
  note w = CHECK_WRITE_succeeds[OF Suc.prems, of signo ?b t]
  from Suc.IH[OF Suc.prems, of "arm_lr regs" "mem (frame - 4)" ?t1]
  obtain e1 where e1: "armFrames fuel env signo regs base mem (arm_lr regs) (mem (frame - 4)) ?t1 = Going (?t1 @ e1) \<or>
      armFrames fuel env signo regs base mem (arm_lr regs) (mem (frame - 4)) ?t1 = Spinning (?t1 @ e1)" by blast
  from Suc.IH[OF Suc.prems, of "mem (mem (frame - 4))" "mem (frame - 4)" ?t1]
  obtain e2 where e2: "armFrames fuel env signo regs base mem (mem (mem (frame - 4))) (mem (frame - 4)) ?t1 = Going (?t1 @ e2) \<or>
      armFrames fuel env signo regs base mem (mem (mem (frame - 4))) (mem (frame - 4)) ?t1 = Spinning (?t1 @ e2)" by blast
  have r: "armFrames (Suc fuel) env signo regs base mem addr frame t =
     (if base + 4194304 < frame \<or> frame < base then Going ?t1
          else if addr = arm_pc regs then
            armFrames fuel env signo regs base mem (arm_lr regs) (mem (frame - 4)) ?t1
          else if frame \<le> mem (frame - 4) then Going ?t1
          else armFrames fuel env signo regs base mem (mem (mem (frame - 4))) (mem (frame - 4)) ?t1)"
    using w by simp
  have g: "Going ?t1 = Going (t @ [Write ?b (int (length ?b))])" by simp
  show ?case
    unfolding r using e1 e2
    by (metis append.assoc)
qed

lemma stackLines_succeeds:
  "writesSucceed env \<Longrightarrow> \<exists>evs. stackLines env signo mem n frame t = Going (t @ evs)"
proof (induction n arbitrary: frame t)
  case 0 then show ?case by simp
next
  case (Suc n)
  let ?b = "snprintf256 (showHex08 frame @ '':'' @
                           concat (map (\<lambda>j. '' '' @ showHex08 (mem (frame + 4 * of_nat j)))
                                       [0..<8]) @ nl)"
  from Suc.IH[OF Suc.prems, of "frame + 32" "t @ [Write ?b (int (length ?b))]"]
  obtain evs where "stackLines env signo mem n (frame + 32) (t @ [Write ?b (int (length ?b))]) =
     Going ((t @ [Write ?b (int (length ?b))]) @ evs)" by auto
  then show ?case using CHECK_WRITE_succeeds[OF Suc.prems, of signo ?b t] by simp
qed

lemma armRegisters_succeeds:
  "writesSucceed env \<Longrightarrow> \<exists>evs. armRegisters env signo regs t = Going (t @ evs)"
  by (simp add: armRegisters_def CHECK_WRITE_succeeds)

lemma dumpCmdline_succeeds:
  assumes "writesSucceed env"
  shows "\<exists>evs. dumpCmdline env signo t =
           Going (t @ Write (''PROCESS COMMAND LINE'' @ nl) 21 # evs)"
proof (cases "cmdlineFile env")
  case None
  then show ?thesis
    by (simp add: dumpCmdline_def CHECK_WRITE_succeeds[OF assms] snprintf256_def)
next
  case (Some answers)
  let ?t1 = "t @ [Write (''PROCESS COMMAND LINE'' @ nl) 21,
                  Open (snprintf256 (''/proc/'' @ showInt (crashPid env) @ ''/cmdline'')) True]"
  from cmdlineLoop_succeeds[OF assms, of signo answers ?t1]
  obtain evs where "cmdlineLoop env signo answers ?t1 = Going (?t1 @ evs)" by blast
  with Some show ?thesis
    by (simp add: dumpCmdline_def CHECK_WRITE_succeeds[OF assms] snprintf256_def)
qed

lemma dumpMaps_succeeds:
  assumes "writesSucceed env"
  shows "\<exists>evs. dumpMaps env signo t = Going (t @ evs)"
proof (cases "mapsFile env")
  case None
  then show ?thesis
    by (simp add: dumpMaps_def CHECK_WRITE_succeeds[OF assms])
next
  case (Some answers)
  let ?t1 = "t @ [Write (snprintf256 (''PROCESS MAP'' @ nl)) (int (length (snprintf256 (''PROCESS MAP'' @ nl)))),
                  Open (snprintf256 (''/proc/'' @ showInt (crashPid env) @ ''/maps'')) True]"
  from mapsLoop_succeeds[OF assms, of signo answers "[]" ?t1]
  obtain evs where "mapsLoop env signo answers [] ?t1 = Going (?t1 @ evs)" by blast
  with Some show ?thesis
    by (simp add: dumpMaps_def CHECK_WRITE_succeeds[OF assms])
qed

lemma dumpBacktrace_succeeds:
  assumes "writesSucceed env"
  shows "\<exists>evs. dumpBacktrace fuel env signo t = Going (t @ evs) \<or>
               ((\<exists>regs base mem. archCtx env = Arm regs base mem) \<and>
                dumpBacktrace fuel env signo t = Spinning (t @ evs))"
proof (cases "archCtx env")
  case (Generic pc addrs)
  let ?t1 = "t @ [Write (snprintf256 (''BACKTRACE'' @ nl)) (int (length (snprintf256 (''BACKTRACE'' @ nl))))]"
  from backtraceLines_succeeds[OF assms, of signo 0 "drop 2 (take 12 addrs)" ?t1]
  obtain evs where "backtraceLines env signo 0 (drop 2 (take 12 addrs)) ?t1 = Going (?t1 @ evs)" by blast
  with Generic show ?thesis
    by (simp add: dumpBacktrace_def CHECK_WRITE_succeeds[OF assms])
next
  case (Arm regs base mem)
  let ?t1 = "t @ [Write (snprintf256 (''BACKTRACE'' @ nl)) (int (length (snprintf256 (''BACKTRACE'' @ nl))))]"
  have d: "dumpBacktrace fuel env signo t =
      runSteps [armFrames fuel env signo regs base mem (arm_pc regs) base,
                armRegisters env signo regs, stackLines env signo mem 32 (arm_sp regs)] ?t1"
    using Arm by (simp add: dumpBacktrace_def CHECK_WRITE_succeeds[OF assms])
  from armFrames_succeeds[OF assms, of fuel signo regs base mem "arm_pc regs" base ?t1]
  obtain e1 where e1: "armFrames fuel env signo regs base mem (arm_pc regs) base ?t1 = Going (?t1 @ e1) \<or>
      armFrames fuel env signo regs base mem (arm_pc regs) base ?t1 = Spinning (?t1 @ e1)" by blast
  from e1 show ?thesis
  proof
    assume g: "armFrames fuel env signo regs base mem (arm_pc regs) base ?t1 = Going (?t1 @ e1)"
    from armRegisters_succeeds[OF assms, of signo regs "?t1 @ e1"]
    obtain e2 where e2: "armRegisters env signo regs (?t1 @ e1) = Going ((?t1 @ e1) @ e2)" by blast
    from stackLines_succeeds[OF assms, of signo mem 32 "arm_sp regs" "(?t1 @ e1) @ e2"]
    obtain e3 where e3: "stackLines env signo mem 32 (arm_sp regs) ((?t1 @ e1) @ e2) = Going (((?t1 @ e1) @ e2) @ e3)" by blast
    have "dumpBacktrace fuel env signo t = Going (((?t1 @ e1) @ e2) @ e3)"
      unfolding d using g e2 e3 by simp
    then show ?thesis by (metis append.assoc)
  next
    assume s: "armFrames fuel env signo regs base mem (arm_pc regs) base ?t1 = Spinning (?t1 @ e1)"
    have "dumpBacktrace fuel env signo t = Spinning (?t1 @ e1)" unfolding d using s by simp
    with Arm show ?thesis by (metis append.assoc)
  qed
qed

lemma finish_appends: "\<exists>evs. traceOf (finish env port signo t) = t @ evs"
  by (simp add: finish_def)

lemma tail_appends:
  assumes "writesSucceed env"
  shows "\<exists>evs. traceOf (runSteps [dumpMaps env signo, dumpBacktrace fuel env signo,
                   CHECK_WRITE env signo (snprintf256 (''DONE'' @ nl)), finish env port signo] t) = t @ evs \<and>
               ((\<exists>pc addrs. archCtx env = Generic pc addrs) \<longrightarrow> Write (''DONE'' @ nl) 5 \<in> set evs)"
proof -
  from dumpMaps_succeeds[OF assms, of signo t]
  obtain e1 where e1: "dumpMaps env signo t = Going (t @ e1)" by blast
  from dumpBacktrace_succeeds[OF assms, of fuel signo "t @ e1"]
  obtain e2 where e2: "dumpBacktrace fuel env signo (t @ e1) = Going ((t @ e1) @ e2) \<or>
               ((\<exists>regs base mem. archCtx env = Arm regs base mem) \<and>
                dumpBacktrace fuel env signo (t @ e1) = Spinning ((t @ e1) @ e2))" by blast
  from e2 show ?thesis
  proof
    assume g: "dumpBacktrace fuel env signo (t @ e1) = Going ((t @ e1) @ e2)"
    let ?t3 = "((t @ e1) @ e2) @ [Write (''DONE'' @ nl) 5]"
    from finish_appends[of env port signo ?t3]
    obtain e4 where e4: "traceOf (finish env port signo ?t3) = ?t3 @ e4" by blast
    have r: "runSteps [dumpMaps env signo, dumpBacktrace fuel env signo,
                   CHECK_WRITE env signo (snprintf256 (''DONE'' @ nl)), finish env port signo] t =
          finish env port signo ?t3"
      using e1 g CHECK_WRITE_succeeds[OF assms, of signo "snprintf256 (''DONE'' @ nl)" "(t @ e1) @ e2"]
      by (cases "finish env port signo ?t3") (simp_all add: snprintf256_def)
    have "traceOf (finish env port signo ?t3) = t @ (e1 @ e2 @ [Write (''DONE'' @ nl) 5] @ e4)"
      using e4 by simp
    moreover have "Write (''DONE'' @ nl) 5 \<in> set (e1 @ e2 @ [Write (''DONE'' @ nl) 5] @ e4)" by simp
    ultimately show ?thesis unfolding r by blast
  next
    assume s: "(\<exists>regs base mem. archCtx env = Arm regs base mem) \<and>
                dumpBacktrace fuel env signo (t @ e1) = Spinning ((t @ e1) @ e2)"
    have r: "runSteps [dumpMaps env signo, dumpBacktrace fuel env signo,
                   CHECK_WRITE env signo (snprintf256 (''DONE'' @ nl)), finish env port signo] t =
          Spinning ((t @ e1) @ e2)"
      using e1 s by simp
    have "traceOf (Spinning ((t @ e1) @ e2)) = t @ (e1 @ e2)" by simp
    moreover have "\<not> (\<exists>pc addrs. archCtx env = Generic pc addrs)" using s by auto
    ultimately show ?thesis unfolding r by blast
  qed
qed

lemma CHECK_WRITE_goes:
  "writesSucceed env \<Longrightarrow> \<exists>t1. CHECK_WRITE env signo buf t = Going t1"
  using CHECK_WRITE_succeeds[of env signo buf t] by blast

lemma first_three_succeed:
  assumes "writesSucceed env"
  shows "\<exists>pre. runSteps (showProcess env signo # showSignal env signo # explainSignal env signo # fs) []
           = runSteps fs pre"
proof -
  from CHECK_WRITE_goes[OF assms] obtain t1 where t1: "showProcess env signo [] = Going t1"
    unfolding showProcess_def by blast
  from CHECK_WRITE_goes[OF assms] obtain t2 where t2: "showSignal env signo t1 = Going t2"
    unfolding showSignal_def by blast
  from CHECK_WRITE_goes[OF assms] obtain t3 where t3: "explainSignal env signo t2 = Going t3"
    unfolding explainSignal_def by blast
  have "runSteps (showProcess env signo # showSignal env signo # explainSignal env signo # fs) []
           = runSteps fs t3"
    using t1 t2 t3 by simp
  then show ?thesis by blast
qed

lemma dumpVersion_open_fails:
  assumes "writesSucceed env" "versionFile env = None"
  shows "dumpVersion env signo t =
           Going (t @ [Write (''LEGATO VERSION'' @ nl) 15, Open versionPath False])"
  using assms(2) by (simp add: dumpVersion_def CHECK_WRITE_succeeds[OF assms(1)] snprintf256_def)

lemma dumpVersion_read_fails:
  assumes "writesSucceed env" "versionFile env = Some answers" "fst (readOnce 256 answers) \<le> 0"
  shows "dumpVersion env signo t =
           Going (t @ [Write (''LEGATO VERSION'' @ nl) 15, Open versionPath True, Close,
                       Write (''Cannot read legato version'' @ nl) 27])"
proof -
  obtain rc bytes where r: "readOnce 256 answers = (rc, bytes)" by (cases "readOnce 256 answers")
  with assms(3) have "\<not> 0 < rc" by simp
  with r assms(2) show ?thesis
    by (simp add: dumpVersion_def CHECK_WRITE_succeeds[OF assms(1)] snprintf256_def)
qed

lemma after_version:
  assumes "writesSucceed env"
  shows "\<exists>post. traceOf (runSteps [dumpCmdline env signo, dumpMaps env signo,
                     dumpBacktrace fuel env signo,
                     CHECK_WRITE env signo (snprintf256 (''DONE'' @ nl)),
                     finish env port signo] t) =
                t @ Write (''PROCESS COMMAND LINE'' @ nl) 21 # post \<and>
               ((\<exists>pc addrs. archCtx env = Generic pc addrs) \<longrightarrow> Write (''DONE'' @ nl) 5 \<in> set post)"
proof -
  from dumpCmdline_succeeds[OF assms, of signo t]
  obtain e1 where e1: "dumpCmdline env signo t = Going (t @ Write (''PROCESS COMMAND LINE'' @ nl) 21 # e1)"
    by blast
  let ?t1 = "t @ Write (''PROCESS COMMAND LINE'' @ nl) 21 # e1"
  from tail_appends[OF assms, of signo fuel port ?t1]
  obtain e2 where e2: "traceOf (runSteps [dumpMaps env signo, dumpBacktrace fuel env signo,
                   CHECK_WRITE env signo (snprintf256 (''DONE'' @ nl)), finish env port signo] ?t1) = ?t1 @ e2"
     and d: "(\<exists>pc addrs. archCtx env = Generic pc addrs) \<longrightarrow> Write (''DONE'' @ nl) 5 \<in> set e2" by blast
  have "traceOf (runSteps [dumpCmdline env signo, dumpMaps env signo,
                     dumpBacktrace fuel env signo,
                     CHECK_WRITE env signo (snprintf256 (''DONE'' @ nl)),
                     finish env port signo] t) = t @ Write (''PROCESS COMMAND LINE'' @ nl) 21 # (e1 @ e2)"
    using e1 e2 by simp
  moreover have "(\<exists>pc addrs. archCtx env = Generic pc addrs) \<longrightarrow> Write (''DONE'' @ nl) 5 \<in> set (e1 @ e2)"
    using d by simp
  ultimately show ?thesis by blast
qed

subsection \<open>The claims about the crash report\<close>

text \<open>
  Claim C6: wherever the trace of the handler holds a \<open>write\<close> that returned something
  else than the number of bytes asked for, the handler has returned, and what follows that
  \<open>write\<close> in the trace is \<open>raise\<close> of the faulting signal and nothing else, but for the
  \<open>close\<close> of the file being read when the write was made while dumping the command line
  or the memory map.  No further write is made; the write is not tried again.
\<close>

theorem failed_write_raises_and_returns:
  assumes "traceOf (ShowStackSignalHandler fuel env port signo) = pre @ Write buf r # post"
    and "r \<noteq> int (length buf)"
  shows "ShowStackSignalHandler fuel env port signo = Returned (pre @ Write buf r # post) \<and>
         (post = [Raise signo] \<or> post = [Close, Raise signo])"
proof -
  let ?H = "ShowStackSignalHandler fuel env port signo"
  have ok: "okProgress signo ?H" by (rule handler_ok)
  have f: "failedWrite (Write buf r)" using assms(2) by simp
  have notall: "\<not> allWritten (traceOf ?H)" using assms(1) f by simp
  from ok notall obtain t where H: "?H = Returned t" and e: "endsProperly signo t"
    by (cases ?H) auto
  from H assms(1) have t: "t = pre @ Write buf r # post" by simp
  from e obtain p where p: "allWritten p"
    and alt: "t = p @ [Raise signo] \<or>
       (\<exists>e. failedWrite e \<and> (t = p @ [e, Raise signo] \<or> t = p @ [e, Close, Raise signo]))"
    unfolding endsProperly_def by blast
  have "t \<noteq> p @ [Raise signo]"
  proof
    assume "t = p @ [Raise signo]"
    with p have "allWritten t" by simp
    with H notall show False by simp
  qed
  with alt obtain e where fe: "failedWrite e"
    and c: "t = p @ e # [Raise signo] \<or> t = p @ e # [Close, Raise signo]" by auto
  from c have "post = [Raise signo] \<or> post = [Close, Raise signo]"
  proof
    assume "t = p @ e # [Raise signo]"
    with t have "p @ e # [Raise signo] = pre @ Write buf r # post" by simp
    from first_failed_write[OF p fe _ this f] show ?thesis by simp
  next
    assume "t = p @ e # [Close, Raise signo]"
    with t have "p @ e # [Close, Raise signo] = pre @ Write buf r # post" by simp
    from first_failed_write[OF p fe _ this f] show ?thesis by simp
  qed
  with H t show ?thesis by simp
qed

theorem failed_write_raises_and_returns_witness:
  "ShowStackSignalHandler 0 brokenOutputEnv 0 SIGSEGV =
     Returned ([Write (''PROCESS: 1234 ,TID 1234'' @ nl) 24] @
               Write (''SIGNAL: 11, ADDR (nil), AT 0x1000'' @ nl) (- 1) # [Raise SIGSEGV]) \<and>
   ShowStackSignalHandler 0 brokenMapsEnv 0 SIGSEGV =
     Returned ([Write (''PROCESS: 1234 ,TID 1234'' @ nl) 24,
                Write (''SIGNAL: 11, ADDR (nil), AT 0x1000'' @ nl) 34,
                Write (''ILLEGAL ADDRESS (nil)'' @ nl) 22,
                Write (''LEGATO VERSION'' @ nl) 15, Open versionPath False,
                Write (''PROCESS COMMAND LINE'' @ nl) 21, Open ''/proc/1234/cmdline'' False,
                Write (''PROCESS MAP'' @ nl) 12, Open ''/proc/1234/maps'' True] @
               Write (''rwx'' @ nl) 2 # [Close, Raise SIGSEGV])"
proof -
  have a: "traceOf (ShowStackSignalHandler 0 brokenOutputEnv 0 SIGSEGV) =
     [Write (''PROCESS: 1234 ,TID 1234'' @ nl) 24] @
       Write (''SIGNAL: 11, ADDR (nil), AT 0x1000'' @ nl) (- 1) # [Raise SIGSEGV]"
    by (simp add: broken_output_run)
  have b: "(- 1 :: int) \<noteq> int (length (''SIGNAL: 11, ADDR (nil), AT 0x1000'' @ nl))" by simp
  have c: "traceOf (ShowStackSignalHandler 0 brokenMapsEnv 0 SIGSEGV) =
     [Write (''PROCESS: 1234 ,TID 1234'' @ nl) 24,
                Write (''SIGNAL: 11, ADDR (nil), AT 0x1000'' @ nl) 34,
                Write (''ILLEGAL ADDRESS (nil)'' @ nl) 22,
                Write (''LEGATO VERSION'' @ nl) 15, Open versionPath False,
                Write (''PROCESS COMMAND LINE'' @ nl) 21, Open ''/proc/1234/cmdline'' False,
                Write (''PROCESS MAP'' @ nl) 12, Open ''/proc/1234/maps'' True] @
               Write (''rwx'' @ nl) 2 # [Close, Raise SIGSEGV]"
    by (simp add: broken_maps_run)
  have d: "(2 :: int) \<noteq> int (length (''rwx'' @ nl))" by simp
  from failed_write_raises_and_returns[OF a b] failed_write_raises_and_returns[OF c d] show ?thesis by simp
qed

text \<open>
  Claim C8 says that whenever the version cannot be read the handler reports "cannot read
  version".  When the version file cannot be opened the handler writes nothing after the
  heading of the section: line 280 guards the whole block, and there is no other branch.
\<close>

theorem version_open_failure_is_silent:
  "versionFile noFilesEnv = None \<and>
   ShowStackSignalHandler 0 noFilesEnv 0 SIGSEGV =
     Returned [Write (''PROCESS: 1234 ,TID 1234'' @ nl) 24,
               Write (''SIGNAL: 11, ADDR (nil), AT 0x1000'' @ nl) 34,
               Write (''ILLEGAL ADDRESS (nil)'' @ nl) 22,
               Write (''LEGATO VERSION'' @ nl) 15, Open versionPath False,
               Write (''PROCESS COMMAND LINE'' @ nl) 21, Open ''/proc/1234/cmdline'' False,
               Write (''PROCESS MAP'' @ nl) 12, Open ''/proc/1234/maps'' False,
               Write (''BACKTRACE'' @ nl) 10, Write (''DONE'' @ nl) 5, Raise SIGSEGV] \<and>
   ''Cannot read legato version'' @ nl \<notin>
     set (writtenTexts (traceOf (ShowStackSignalHandler 0 noFilesEnv 0 SIGSEGV)))"
  unfolding no_files_run by (simp add: noFilesEnv_def)

text \<open>
  Claim C8, amended: while the writes succeed, a version file that opens but whose read
  returns nothing (0 or \<open>-1\<close>) makes the handler write "Cannot read legato version" after
  the heading, and a version file that cannot be opened makes it write nothing after the
  heading; in both cases the command-line section follows at once, and on every
  architecture but ARM the report runs on to \<open>DONE\<close>.
\<close>

theorem version_section_degrades:
  assumes "writesSucceed env"
  shows "(versionFile env = Some answers \<and> fst (readOnce 256 answers) \<le> 0 \<longrightarrow>
            (\<exists>pre post. traceOf (ShowStackSignalHandler fuel env port signo) =
                pre @ [Write (''LEGATO VERSION'' @ nl) 15, Open versionPath True, Close,
                       Write (''Cannot read legato version'' @ nl) 27,
                       Write (''PROCESS COMMAND LINE'' @ nl) 21] @ post)) \<and>
         (versionFile env = None \<longrightarrow>
            (\<exists>pre post. traceOf (ShowStackSignalHandler fuel env port signo) =
                pre @ [Write (''LEGATO VERSION'' @ nl) 15, Open versionPath False,
                       Write (''PROCESS COMMAND LINE'' @ nl) 21] @ post)) \<and>
         (archCtx env = Generic pc addrs \<longrightarrow>
            Write (''DONE'' @ nl) 5 \<in> set (traceOf (ShowStackSignalHandler fuel env port signo)))"
proof -
  let ?rest = "[dumpCmdline env signo, dumpMaps env signo, dumpBacktrace fuel env signo,
                CHECK_WRITE env signo (snprintf256 (''DONE'' @ nl)), finish env port signo]"
  from first_three_succeed[OF assms, of signo "dumpVersion env signo # ?rest"]
  obtain t3 where t3: "ShowStackSignalHandler fuel env port signo =
      runSteps (dumpVersion env signo # ?rest) t3"
    unfolding ShowStackSignalHandler_def by blast
  { assume a: "versionFile env = Some answers \<and> fst (readOnce 256 answers) \<le> 0"
    let ?t4 = "t3 @ [Write (''LEGATO VERSION'' @ nl) 15, Open versionPath True, Close,
                       Write (''Cannot read legato version'' @ nl) 27]"
    from a dumpVersion_read_fails[OF assms, of answers signo t3]
    have "ShowStackSignalHandler fuel env port signo = runSteps ?rest ?t4"
      unfolding t3 by simp
    moreover from after_version[OF assms, of signo fuel port ?t4]
    obtain post where "traceOf (runSteps ?rest ?t4) = ?t4 @ Write (''PROCESS COMMAND LINE'' @ nl) 21 # post"
      by blast
    ultimately have "traceOf (ShowStackSignalHandler fuel env port signo) =
         t3 @ [Write (''LEGATO VERSION'' @ nl) 15, Open versionPath True, Close,
                       Write (''Cannot read legato version'' @ nl) 27,
                       Write (''PROCESS COMMAND LINE'' @ nl) 21] @ post" by simp
    then have "\<exists>pre post. traceOf (ShowStackSignalHandler fuel env port signo) =
                pre @ [Write (''LEGATO VERSION'' @ nl) 15, Open versionPath True, Close,
                       Write (''Cannot read legato version'' @ nl) 27,
                       Write (''PROCESS COMMAND LINE'' @ nl) 21] @ post" by blast }
  moreover
  { assume a: "versionFile env = None"
    let ?t4 = "t3 @ [Write (''LEGATO VERSION'' @ nl) 15, Open versionPath False]"
    from a dumpVersion_open_fails[OF assms, of signo t3]
    have "ShowStackSignalHandler fuel env port signo = runSteps ?rest ?t4"
      unfolding t3 by simp
    moreover from after_version[OF assms, of signo fuel port ?t4]
    obtain post where "traceOf (runSteps ?rest ?t4) = ?t4 @ Write (''PROCESS COMMAND LINE'' @ nl) 21 # post"
      by blast
    ultimately have "traceOf (ShowStackSignalHandler fuel env port signo) =
         t3 @ [Write (''LEGATO VERSION'' @ nl) 15, Open versionPath False,
                       Write (''PROCESS COMMAND LINE'' @ nl) 21] @ post" by simp
    then have "\<exists>pre post. traceOf (ShowStackSignalHandler fuel env port signo) =
                pre @ [Write (''LEGATO VERSION'' @ nl) 15, Open versionPath False,
                       Write (''PROCESS COMMAND LINE'' @ nl) 21] @ post" by blast }
  moreover
  { assume g: "archCtx env = Generic pc addrs"
    have so: "stepOk signo (dumpVersion env signo)" by (rule stepOk_dumpVersion)
    have "\<exists>t4. dumpVersion env signo t3 = Going t4"
    proof (cases "versionFile env")
      case None
      with dumpVersion_open_fails[OF assms, of signo t3] show ?thesis by simp
    next
      case (Some ans)
      obtain rc bytes where r: "readOnce 256 ans = (rc, bytes)" by (cases "readOnce 256 ans")
      show ?thesis using Some r
        by (simp add: dumpVersion_def CHECK_WRITE_succeeds[OF assms])
    qed
    then obtain t4 where t4: "dumpVersion env signo t3 = Going t4" by blast
    from after_version[OF assms, of signo fuel port t4] g
    obtain post where "traceOf (runSteps ?rest t4) = t4 @ Write (''PROCESS COMMAND LINE'' @ nl) 21 # post"
      and "Write (''DONE'' @ nl) 5 \<in> set post" by blast
    then have "Write (''DONE'' @ nl) 5 \<in> set (traceOf (ShowStackSignalHandler fuel env port signo))"
      unfolding t3 using t4 by simp }
  ultimately show ?thesis by blast
qed

theorem version_section_degrades_witness:
  "writesSucceed emptyVersionEnv \<and> versionFile emptyVersionEnv = Some [] \<and>
   fst (readOnce 256 []) \<le> 0 \<and>
   traceOf (ShowStackSignalHandler 0 emptyVersionEnv 0 SIGSEGV) =
     [Write (''PROCESS: 1234 ,TID 1234'' @ nl) 24,
      Write (''SIGNAL: 11, ADDR (nil), AT 0x1000'' @ nl) 34,
      Write (''ILLEGAL ADDRESS (nil)'' @ nl) 22] @
     [Write (''LEGATO VERSION'' @ nl) 15, Open versionPath True, Close,
      Write (''Cannot read legato version'' @ nl) 27,
      Write (''PROCESS COMMAND LINE'' @ nl) 21] @
     [Open ''/proc/1234/cmdline'' False,
      Write (''PROCESS MAP'' @ nl) 12, Open ''/proc/1234/maps'' False,
      Write (''BACKTRACE'' @ nl) 10, Write (''DONE'' @ nl) 5, Raise SIGSEGV] \<and>
   writesSucceed noFilesEnv \<and> versionFile noFilesEnv = None \<and>
   archCtx noFilesEnv = Generic 4096 [] \<and>
   traceOf (ShowStackSignalHandler 0 noFilesEnv 0 SIGSEGV) =
     [Write (''PROCESS: 1234 ,TID 1234'' @ nl) 24,
      Write (''SIGNAL: 11, ADDR (nil), AT 0x1000'' @ nl) 34,
      Write (''ILLEGAL ADDRESS (nil)'' @ nl) 22] @
     [Write (''LEGATO VERSION'' @ nl) 15, Open versionPath False,
      Write (''PROCESS COMMAND LINE'' @ nl) 21] @
     [Open ''/proc/1234/cmdline'' False,
      Write (''PROCESS MAP'' @ nl) 12, Open ''/proc/1234/maps'' False,
      Write (''BACKTRACE'' @ nl) 10, Write (''DONE'' @ nl) 5, Raise SIGSEGV] \<and>
   Write (''DONE'' @ nl) 5 \<in> set (traceOf (ShowStackSignalHandler 0 noFilesEnv 0 SIGSEGV))"
proof -
  have a: "writesSucceed emptyVersionEnv" "writesSucceed noFilesEnv"
    by (simp_all add: writesSucceed_def emptyVersionEnv_def noFilesEnv_def)
  have b: "versionFile emptyVersionEnv = Some []" "versionFile noFilesEnv = None"
    "archCtx noFilesEnv = Generic 4096 []"
    by (simp_all add: emptyVersionEnv_def noFilesEnv_def)
  show ?thesis
    using version_section_degrades[OF a(1), of "[]" 0 0 SIGSEGV 4096 "[]"] version_section_degrades[OF a(2), of "[]" 0 0 SIGSEGV 4096 "[]"] a b
    by (simp add: no_files_run empty_version_run)
qed

end
